theory Spec2Isabelle
  imports Complex_Main "HOL-Library.Multiset" "HOL-Library.Product_Lexorder"
begin

section \<open>Host-language values\<close>

subsection \<open>Numbers\<close>

text \<open>
  A JavaScript number is modelled symbolically: the three special values of IEEE 754
  and the finite values. A finite double is represented by the rational it denotes and
  arithmetic on finite values is exact, so rounding to 53 bits, overflow of a finite
  result to an infinity and the sign of zero are outside the model. Everything the
  ranking code does with numbers (comparisons with the infinities, subtraction inside a
  comparator, \<open>isNaN\<close>) depends only on the case distinction below and on the sign of a
  difference, which exact and rounded arithmetic agree on.
\<close>

datatype jsnum = NaN | NegInf | Fin rat | PosInf

definition isNaN :: "jsnum \<Rightarrow> bool" where
  "isNaN v = (v = NaN)"

text \<open>\<open>a - b\<close>: the difference of two equal infinities is \<open>NaN\<close>.\<close>

fun js_sub :: "jsnum \<Rightarrow> jsnum \<Rightarrow> jsnum" where
  "js_sub NaN _ = NaN"
| "js_sub _ NaN = NaN"
| "js_sub (Fin a) (Fin b) = Fin (a - b)"
| "js_sub (Fin a) PosInf = NegInf"
| "js_sub (Fin a) NegInf = PosInf"
| "js_sub PosInf PosInf = NaN"
| "js_sub PosInf _ = PosInf"
| "js_sub NegInf NegInf = NaN"
| "js_sub NegInf _ = NegInf"

text \<open>\<open>-a\<close>.\<close>

fun js_neg :: "jsnum \<Rightarrow> jsnum" where
  "js_neg NaN = NaN"
| "js_neg NegInf = PosInf"
| "js_neg PosInf = NegInf"
| "js_neg (Fin a) = Fin (- a)"

text \<open>
  \<open>a / b\<close>. A finite zero divisor is taken as \<open>+0\<close>; the program guards both of its
  divisions against a zero divisor, so that branch is never reached from it.
\<close>

fun js_div :: "jsnum \<Rightarrow> jsnum \<Rightarrow> jsnum" where
  "js_div NaN _ = NaN"
| "js_div _ NaN = NaN"
| "js_div (Fin a) (Fin b) =
     (if b = 0 then (if a = 0 then NaN else if 0 < a then PosInf else NegInf)
      else Fin (a / b))"
| "js_div (Fin a) _ = Fin 0"
| "js_div PosInf (Fin b) = (if b < 0 then NegInf else PosInf)"
| "js_div NegInf (Fin b) = (if b < 0 then PosInf else NegInf)"
| "js_div _ _ = NaN"

text \<open>\<open>a * b\<close>: an infinity times zero is \<open>NaN\<close>.\<close>

fun js_mul :: "jsnum \<Rightarrow> jsnum \<Rightarrow> jsnum" where
  "js_mul NaN _ = NaN"
| "js_mul _ NaN = NaN"
| "js_mul (Fin a) (Fin b) = Fin (a * b)"
| "js_mul (Fin a) PosInf = (if a = 0 then NaN else if 0 < a then PosInf else NegInf)"
| "js_mul (Fin a) NegInf = (if a = 0 then NaN else if 0 < a then NegInf else PosInf)"
| "js_mul PosInf (Fin b) = (if b = 0 then NaN else if 0 < b then PosInf else NegInf)"
| "js_mul NegInf (Fin b) = (if b = 0 then NaN else if 0 < b then NegInf else PosInf)"
| "js_mul PosInf PosInf = PosInf"
| "js_mul PosInf NegInf = NegInf"
| "js_mul NegInf PosInf = NegInf"
| "js_mul NegInf NegInf = PosInf"

text \<open>\<open>a > 0\<close> and \<open>a <= b\<close>: every comparison with \<open>NaN\<close> is false.\<close>

fun js_gt0 :: "jsnum \<Rightarrow> bool" where
  "js_gt0 PosInf = True"
| "js_gt0 (Fin a) = (0 < a)"
| "js_gt0 _ = False"

fun js_le :: "jsnum \<Rightarrow> jsnum \<Rightarrow> bool" where
  "js_le NaN _ = False"
| "js_le _ NaN = False"
| "js_le NegInf _ = True"
| "js_le _ PosInf = True"
| "js_le (Fin a) (Fin b) = (a \<le> b)"
| "js_le _ _ = False"

subsection \<open>Strings\<close>

text \<open>
  A string is the list of its code units; the model covers the code units below 256
  (basic Latin and the Latin-1 supplement, which hold every character of the two header
  sets). A value that may be \<open>undefined\<close> at run time is a \<open>string option\<close>, with \<open>None\<close>
  for \<open>undefined\<close>.
\<close>

type_synonym cell = "string option"

text \<open>
  The white space and line terminator code units below 256: what \<open>trim\<close>, the regular
  expression class \<open>\s\<close> and \<open>parseFloat\<close> skip.
\<close>

definition isWhiteSpace :: "char \<Rightarrow> bool" where
  "isWhiteSpace c =
     (c \<in> set [CHR 0x09, CHR 0x0A, CHR 0x0B, CHR 0x0C, CHR 0x0D, CHR 0x20, CHR 0xA0])"

definition trim :: "string \<Rightarrow> string" where
  "trim s = rev (dropWhile isWhiteSpace (rev (dropWhile isWhiteSpace s)))"

text \<open>\<open>s.split(c)\<close> for a one-character separator: always at least one piece.\<close>

fun str_split :: "char \<Rightarrow> string \<Rightarrow> string list" where
  "str_split c [] = [[]]"
| "str_split c (x # xs) =
     (if x = c then [] # str_split c xs
      else (case str_split c xs of
              p # ps \<Rightarrow> (x # p) # ps
            | [] \<Rightarrow> [[x]]))"

text \<open>\<open>s.replace(c, d)\<close> with a string pattern: only the first occurrence is replaced.\<close>

fun replace_first :: "char \<Rightarrow> char \<Rightarrow> string \<Rightarrow> string" where
  "replace_first c d [] = []"
| "replace_first c d (x # xs) = (if x = c then d # xs else x # replace_first c d xs)"

text \<open>
  \<open>s.toLowerCase()\<close> on the basic Latin letters; other code units are kept. The program
  only compares the result with \<open>'empresa'\<close>, and no character outside \<open>A\<close>-\<open>Z\<close> has one of
  these seven letters as its lower case.
\<close>

definition lowerChar :: "char \<Rightarrow> char" where
  "lowerChar c =
     (if (65::nat) \<le> of_char c \<and> of_char c \<le> (90::nat) then char_of (of_char c + (32::nat)) else c)"

definition toLowerCase :: "string \<Rightarrow> string" where
  "toLowerCase s = map lowerChar s"

definition isDigit :: "char \<Rightarrow> bool" where
  "isDigit c = ((48::nat) \<le> of_char c \<and> of_char c \<le> (57::nat))"

definition digitVal :: "char \<Rightarrow> int" where
  "digitVal c = of_char c - 48"

text \<open>The integer a string of decimal digits denotes.\<close>

definition digitsVal :: "string \<Rightarrow> int" where
  "digitsVal ds = foldl (\<lambda>n c. 10 * n + digitVal c) 0 ds"

text \<open>
  \<open>n.toString()\<close> for a non-negative integer below \<open>10^21\<close> (from there on the built-in
  switches to exponent notation): its decimal digits.
\<close>

function natToString :: "nat \<Rightarrow> string" where
  "natToString n =
     (if n < 10 then [char_of (48 + n)]
      else natToString (n div 10) @ [char_of (48 + n mod 10)])"
  by pat_completeness auto
termination
  by (relation "measure (\<lambda>n. n)") auto

declare natToString.simps [simp del]

subsection \<open>parseFloat\<close>

text \<open>
  \<open>parseFloat\<close> skips leading white space and reads the longest prefix that is a decimal
  literal: an optional sign, then \<open>Infinity\<close>, or digits with an optional fraction and an
  optional exponent. What follows the literal is ignored; without a literal the result is
  \<open>NaN\<close>.
\<close>

text \<open>The exponent part: \<open>e\<close> or \<open>E\<close>, an optional sign, and at least one digit.\<close>

definition parseExponent :: "string \<Rightarrow> int" where
  "parseExponent r =
     (case r of
        [] \<Rightarrow> 0
      | c # r1 \<Rightarrow>
          if c = CHR ''e'' \<or> c = CHR ''E'' then
            (case r1 of
               [] \<Rightarrow> 0
             | s # r2 \<Rightarrow>
                 if s = CHR ''+'' then
                   (if takeWhile isDigit r2 = [] then 0 else digitsVal (takeWhile isDigit r2))
                 else if s = CHR ''-'' then
                   (if takeWhile isDigit r2 = [] then 0 else - digitsVal (takeWhile isDigit r2))
                 else
                   (if takeWhile isDigit r1 = [] then 0 else digitsVal (takeWhile isDigit r1)))
          else 0)"

definition pow10 :: "int \<Rightarrow> rat" where
  "pow10 e = (if 0 \<le> e then 10 ^ nat e else 1 / 10 ^ nat (- e))"

definition parseUnsigned :: "string \<Rightarrow> jsnum" where
  "parseUnsigned r =
     (if take 8 r = ''Infinity'' then PosInf
      else
        let ip = takeWhile isDigit r;
            r1 = dropWhile isDigit r;
            hasPoint = (r1 \<noteq> [] \<and> hd r1 = CHR ''.'');
            fp = (if hasPoint then takeWhile isDigit (tl r1) else []);
            r2 = (if hasPoint then dropWhile isDigit (tl r1) else r1)
        in if ip = [] \<and> fp = [] then NaN
           else Fin ((rat_of_int (digitsVal ip) + rat_of_int (digitsVal fp) / 10 ^ length fp)
                     * pow10 (parseExponent r2)))"

definition parseFloat :: "string \<Rightarrow> jsnum" where
  "parseFloat s =
     (case dropWhile isWhiteSpace s of
        [] \<Rightarrow> NaN
      | c # r \<Rightarrow>
          if c = CHR ''+'' then parseUnsigned r
          else if c = CHR ''-'' then js_neg (parseUnsigned r)
          else parseUnsigned (c # r))"

section \<open>The numeric parser\<close>

text \<open>
  \<open>parseBRNumber\<close>: an absent or empty argument gives negative infinity; otherwise the
  characters \<open>R\<close>, \<open>$\<close>, \<open>%\<close> and white space are removed, then every \<open>.\<close>, then the first
  \<open>,\<close> becomes \<open>.\<close>, and the result goes through \<open>parseFloat\<close>, with \<open>NaN\<close> turned into
  negative infinity.
\<close>

definition cleanStr :: "string \<Rightarrow> string" where
  "cleanStr str =
     replace_first CHR '','' CHR ''.''
       (filter (\<lambda>c. c \<noteq> CHR ''.'')
          (filter (\<lambda>c. \<not> (c = CHR ''R'' \<or> c = CHR ''$'' \<or> c = CHR ''%'' \<or> isWhiteSpace c)) str))"

definition parseBRNumber :: "cell \<Rightarrow> jsnum" where
  "parseBRNumber str =
     (case str of
        None \<Rightarrow> NegInf
      | Some s \<Rightarrow>
          if s = [] then NegInf
          else let num = parseFloat (cleanStr s)
               in if isNaN num then NegInf else num)"


section \<open>Data model\<close>

text \<open>
  \<open>StockData\<close>, one per data row. The numeric fields are numbers of the host language. The
  eight rank fields only ever hold \<open>0\<close>, an array position plus one, or a sum of six of
  those, so they are natural numbers. \<open>ticker\<close>, \<open>company\<close> and \<open>sector\<close> are copied from
  cells of the row and can be \<open>undefined\<close> at run time, like the cells of \<open>raw\<close>.
\<close>

record StockData =
  id_str :: string
  raw :: "cell list"
  plProjected :: jsnum
  plDeviation :: jsnum
  dy :: jsnum
  marginSafety :: jsnum
  cagr :: jsnum
  debtEbitda :: jsnum
  priceDiff :: jsnum
  ticker :: cell
  company :: cell
  sector :: cell
  currentPrice :: jsnum
  fairPrice :: jsnum
  rankPL :: nat
  rankDeviation :: nat
  rankDY :: nat
  rankMargin :: nat
  rankCAGR :: nat
  rankDebt :: nat
  rankTotal :: nat
  rankGeneral :: nat

datatype SortOrder = ASC | DESC

record TableLayoutConfig =
  stickyIndices :: "nat list"
  tickerIndex :: nat
  companyIndex :: nat
  statusIndex :: "nat option"
  generalRankIndex :: "nat option"

record ProcessResult =
  processed :: "StockData list"
  headers :: "string list"
  initialHiddenColumns :: "nat list"
  layoutConfig :: TableLayoutConfig

datatype Mode = Standard | Neto

text \<open>The only exception the pipeline throws: \<open>Error("Dados insuficientes.")\<close>.\<close>

datatype error = MalformedInput

definition STANDARD_HEADERS :: "string list" where
  "STANDARD_HEADERS =
     [''Ranking Geral'', ''Status'', ''Ranking PL'', ''Ranking Desvio PL'', ''Ranking DY'',
      ''Ranking Mg'', ''Ranking CAGR'', ''Ranking Divida'', ''Ranking Total'', ''Empresa'',
      ''C'' @ [CHR 0xF3] @ ''digo'', ''Atua'' @ [CHR 0xE7, CHR 0xE3] @ ''o'',
      ''Quantidade total de a'' @ [CHR 0xE7, CHR 0xF5] @ ''es'', ''Valor de mercado'',
      ''Lucro l'' @ [CHR 0xED] @ ''quido estimado 2025'', ''P/L projetado'',
      ''P/L m'' @ [CHR 0xE9] @ ''dio ('' @ [CHR 0xFA] @ ''lt. 10 anos)'',
      ''Desvio do P/L da sua m'' @ [CHR 0xE9] @ ''dia'',
      ''CAGR lucros ('' @ [CHR 0xFA] @ ''lt. 5 anos)'',
      ''D'' @ [CHR 0xED] @ ''vida l'' @ [CHR 0xED] @ ''quida/EBITDA'',
      ''Lucro por a'' @ [CHR 0xE7, CHR 0xE3] @ ''o estimado'', ''Payout esperado'',
      ''Dividendo por a'' @ [CHR 0xE7, CHR 0xE3] @ ''o bruto projetado'',
      ''Dividend Yield estimado'', ''Cota'' @ [CHR 0xE7, CHR 0xE3] @ ''o atual'',
      ''Pre'' @ [CHR 0xE7] @ ''o Teto'', ''Margem de seguran'' @ [CHR 0xE7] @ ''a'',
      ''Pre'' @ [CHR 0xE7] @ ''o de entrada'',
      ''Dif. Pre'' @ [CHR 0xE7] @ ''o Atual x Entrada'',
      ''Frequ'' @ [CHR 0xEA] @ ''ncia nos an'' @ [CHR 0xFA] @ ''ncios'',
      ''Meses que costumam anunciar dividendos'',
      [CHR 0xDA] @ ''ltima atualiza'' @ [CHR 0xE7, CHR 0xE3] @ ''o'', ''Investidor10'']"

definition NETO_INVEST_HEADERS :: "string list" where
  "NETO_INVEST_HEADERS =
     [''Empresa'', ''C'' @ [CHR 0xF3] @ ''digo'', ''Atua'' @ [CHR 0xE7, CHR 0xE3] @ ''o'',
      ''Quantidade total de a'' @ [CHR 0xE7, CHR 0xF5] @ ''es'', ''Valor de mercado'',
      ''Lucro l'' @ [CHR 0xED] @ ''quido estimado 2025'', ''P/L projetado'',
      ''P/L m'' @ [CHR 0xE9] @ ''dio ('' @ [CHR 0xFA] @ ''lt. 10 anos)'',
      ''Desvio do P/L da sua m'' @ [CHR 0xE9] @ ''dia'',
      ''CAGR lucros ('' @ [CHR 0xFA] @ ''lt. 5 anos)'',
      ''D'' @ [CHR 0xED] @ ''vida l'' @ [CHR 0xED] @ ''quida/EBITDA'',
      ''Lucro por a'' @ [CHR 0xE7, CHR 0xE3] @ ''o estimado'', ''Payout esperado'',
      ''Dividendo por a'' @ [CHR 0xE7, CHR 0xE3] @ ''o bruto projetado'',
      ''Dividend Yield bruto estimado'', ''Cota'' @ [CHR 0xE7, CHR 0xE3] @ ''o atual'',
      ''Pre'' @ [CHR 0xE7] @ ''o Teto'', ''Margem de seguran'' @ [CHR 0xE7] @ ''a'',
      ''Frequ'' @ [CHR 0xEA] @ ''ncia nos an'' @ [CHR 0xFA] @ ''ncios'',
      ''Meses que costumam anunciar dividendos'',
      [CHR 0xDA] @ ''ltima atualiza'' @ [CHR 0xE7, CHR 0xE3] @ ''o'']"

section \<open>The ranking engine\<close>

subsection \<open>Array.prototype.sort\<close>

text \<open>
  \<open>stocks.sort(cmp)\<close>. The language standard (since its 2019 edition) requires a stable
  sort: for a consistent comparator the result is the one arrangement that is ordered by
  \<open>cmp\<close> and keeps equal elements in their previous order. A comparator result that is
  \<open>NaN\<close> is read as \<open>+0\<close>, so an element moves behind another only when the comparator
  is positive. The model is the stable insertion sort; for an inconsistent comparator the
  standard leaves the order to the implementation, and the model picks one such order.
\<close>

fun sort_insert :: "('a \<Rightarrow> 'a \<Rightarrow> jsnum) \<Rightarrow> 'a \<Rightarrow> 'a list \<Rightarrow> 'a list" where
  "sort_insert cmp x [] = [x]"
| "sort_insert cmp x (y # ys) =
     (if js_gt0 (cmp x y) then y # sort_insert cmp x ys else x # y # ys)"

definition array_sort :: "('a \<Rightarrow> 'a \<Rightarrow> jsnum) \<Rightarrow> 'a list \<Rightarrow> 'a list" where
  "array_sort cmp xs = foldr (sort_insert cmp) xs []"

subsection \<open>applyRank\<close>

text \<open>
  The comparator of \<open>applyRank\<close>: both infinities are replaced by the worst value of the
  current direction before subtracting.
\<close>

definition safeVal :: "SortOrder \<Rightarrow> jsnum \<Rightarrow> jsnum" where
  "safeVal order v =
     (if v = NegInf \<or> v = PosInf then (if order = ASC then PosInf else NegInf) else v)"

definition rankCompare :: "(StockData \<Rightarrow> jsnum) \<Rightarrow> SortOrder \<Rightarrow> StockData \<Rightarrow> StockData \<Rightarrow> jsnum" where
  "rankCompare key order a b =
     (let valA = key a;
          valB = key b;
          safeA = safeVal order valA;
          safeB = safeVal order valB
      in if order = ASC then js_sub safeA safeB else js_sub safeB safeA)"

text \<open>\<open>stocks.forEach((s, i) => s[targetRank] = i + 1)\<close>, counting from position \<open>i\<close>.\<close>

fun assignRanks :: "(nat \<Rightarrow> StockData \<Rightarrow> StockData) \<Rightarrow> nat \<Rightarrow> StockData list \<Rightarrow> StockData list" where
  "assignRanks targetRank i [] = []"
| "assignRanks targetRank i (s # ss) = targetRank (i + 1) s # assignRanks targetRank (i + 1) ss"

text \<open>
  \<open>applyRank(key, targetRank, order)\<close>: \<open>key\<close> reads the field that is sorted on and
  \<open>targetRank n\<close> writes \<open>n\<close> to the rank field.
\<close>

definition applyRank ::
  "(StockData \<Rightarrow> jsnum) \<Rightarrow> (nat \<Rightarrow> StockData \<Rightarrow> StockData) \<Rightarrow> SortOrder \<Rightarrow> StockData list \<Rightarrow> StockData list" where
  "applyRank key targetRank order stocks =
     assignRanks targetRank 0 (array_sort (rankCompare key order) stocks)"

subsection \<open>calculateRanks\<close>

definition sumRanks :: "StockData \<Rightarrow> StockData" where
  "sumRanks s =
     s\<lparr>rankTotal := rankPL s + rankDeviation s + rankDY s + rankMargin s + rankCAGR s + rankDebt s\<rparr>"

text \<open>The write-back into the display row, for a row of at least 30 cells.\<close>

definition writeBack :: "StockData \<Rightarrow> StockData" where
  "writeBack s =
     (if 30 \<le> length (raw s) then
        s\<lparr>raw := (raw s)
             [0 := Some (natToString (rankGeneral s)),
              2 := Some (natToString (rankPL s)),
              3 := Some (natToString (rankDeviation s)),
              4 := Some (natToString (rankDY s)),
              5 := Some (natToString (rankMargin s)),
              6 := Some (natToString (rankCAGR s)),
              7 := Some (natToString (rankDebt s)),
              8 := Some (natToString (rankTotal s))]\<rparr>
      else s)"

text \<open>The comparator of the default sort: only negative infinity is remapped.\<close>

definition defaultCompare :: "StockData \<Rightarrow> StockData \<Rightarrow> jsnum" where
  "defaultCompare a b =
     (let valA = (if priceDiff a = NegInf then PosInf else priceDiff a);
          valB = (if priceDiff b = NegInf then PosInf else priceDiff b)
      in js_sub valA valB)"

text \<open>The six metric ranks, in the order the source applies them.\<close>

definition metricRanks :: "StockData list \<Rightarrow> StockData list" where
  "metricRanks stocks =
     (let s1 = applyRank plProjected (\<lambda>n s. s\<lparr>rankPL := n\<rparr>) ASC stocks;
          s2 = applyRank plDeviation (\<lambda>n s. s\<lparr>rankDeviation := n\<rparr>) ASC s1;
          s3 = applyRank dy (\<lambda>n s. s\<lparr>rankDY := n\<rparr>) DESC s2;
          s4 = applyRank marginSafety (\<lambda>n s. s\<lparr>rankMargin := n\<rparr>) DESC s3;
          s5 = applyRank cagr (\<lambda>n s. s\<lparr>rankCAGR := n\<rparr>) DESC s4
      in applyRank debtEbitda (\<lambda>n s. s\<lparr>rankDebt := n\<rparr>) ASC s5)"

text \<open>
  The guard around the write-back looks at the first record of the array, and the
  write-back itself at each record's own row.
\<close>

definition writeBackAll :: "StockData list \<Rightarrow> StockData list" where
  "writeBackAll stocks =
     (if 0 < length stocks \<and> 9 \<le> length (raw (hd stocks)) then map writeBack stocks
      else stocks)"

definition calculateRanks :: "StockData list \<Rightarrow> StockData list" where
  "calculateRanks stocks =
     (let s6 = metricRanks stocks;
          s7 = map sumRanks s6;
          s8 = applyRank (\<lambda>s. Fin (rat_of_nat (rankTotal s))) (\<lambda>n s. s\<lparr>rankGeneral := n\<rparr>) ASC s7;
          s9 = writeBackAll s8
      in array_sort defaultCompare s9)"

section \<open>The schema normalizer\<close>

text \<open>
  Two built-ins are inputs of the model. \<open>random k\<close> is the text that the \<open>k\<close>-th evaluation
  of \<open>Math.random()\<close> contributes to a template literal, and \<open>toFixed x d\<close> is
  \<open>x.toFixed(d)\<close>, whose digits depend on the binary representation of \<open>x\<close>.
\<close>

record host =
  random :: "nat \<Rightarrow> string"
  toFixed :: "jsnum \<Rightarrow> nat \<Rightarrow> string"

text \<open>\<open>row[i]\<close>: \<open>undefined\<close> beyond the end of the array.\<close>

definition cellAt :: "cell list \<Rightarrow> nat \<Rightarrow> cell" where
  "cellAt row i = (if i < length row then row ! i else None)"

text \<open>Truthiness of a cell: \<open>undefined\<close> and the empty string are falsy.\<close>

definition truthy :: "cell \<Rightarrow> bool" where
  "truthy c = (case c of None \<Rightarrow> False | Some s \<Rightarrow> s \<noteq> [])"

text \<open>\<open>while (safeRow.length < n) safeRow.push('')\<close> on a copy of the row.\<close>

definition padRow :: "nat \<Rightarrow> cell list \<Rightarrow> cell list" where
  "padRow n row = row @ replicate (n - length row) (Some [])"

text \<open>
  \<open>c || `unknown-${Math.random()}`\<close>: the value and the number of draws made so far.
\<close>

definition idOrUnknown :: "host \<Rightarrow> nat \<Rightarrow> cell \<Rightarrow> string \<times> nat" where
  "idOrUnknown h k c =
     (case c of
        None \<Rightarrow> (''unknown-'' @ random h k, Suc k)
      | Some s \<Rightarrow> if s \<noteq> [] then (s, k) else (''unknown-'' @ random h k, Suc k))"

text \<open>\<open>rows.map(f)\<close> for a callback that may draw random numbers: the draws are threaded.\<close>

fun mapRows :: "(nat \<Rightarrow> 'a \<Rightarrow> 'b \<times> nat) \<Rightarrow> nat \<Rightarrow> 'a list \<Rightarrow> 'b list" where
  "mapRows f k [] = []"
| "mapRows f k (r # rs) = (case f k r of (s, k') \<Rightarrow> s # mapRows f k' rs)"

text \<open>\<open>rawData.trim().split('\n').map(row => row.split('\t'))\<close>.\<close>

definition splitRows :: "string \<Rightarrow> cell list list" where
  "splitRows rawData =
     map (\<lambda>row. map Some (str_split CHR 0x09 row)) (str_split CHR 0x0A (trim rawData))"

subsection \<open>Neto mode\<close>

definition netoStock :: "host \<Rightarrow> nat \<Rightarrow> cell list \<Rightarrow> StockData \<times> nat" where
  "netoStock h k row =
     (let safeRow = padRow (length NETO_INVEST_HEADERS) row;
          (i, k') = idOrUnknown h k (cellAt safeRow 1)
      in (\<lparr>id_str = i,
           raw = safeRow,
           plProjected = parseBRNumber (cellAt safeRow 6),
           plDeviation = parseBRNumber (cellAt safeRow 8),
           dy = parseBRNumber (cellAt safeRow 14),
           marginSafety = parseBRNumber (cellAt safeRow 17),
           cagr = parseBRNumber (cellAt safeRow 9),
           debtEbitda = parseBRNumber (cellAt safeRow 10),
           priceDiff = Fin 0,
           ticker = cellAt safeRow 1,
           company = cellAt safeRow 0,
           sector = cellAt safeRow 2,
           currentPrice = parseBRNumber (cellAt safeRow 15),
           fairPrice = parseBRNumber (cellAt safeRow 16),
           rankPL = 0, rankDeviation = 0, rankDY = 0, rankMargin = 0,
           rankCAGR = 0, rankDebt = 0, rankTotal = 0, rankGeneral = 0\<rparr>, k'))"

text \<open>The price difference of neto mode, computed when both prices are positive.\<close>

definition netoPriceDiff :: "StockData \<Rightarrow> StockData" where
  "netoPriceDiff s =
     (if js_gt0 (currentPrice s) \<and> js_gt0 (fairPrice s) then
        s\<lparr>priceDiff := js_mul (js_div (js_sub (currentPrice s) (fairPrice s)) (fairPrice s)) (Fin 100)\<rparr>
      else s)"

definition netoStocks :: "host \<Rightarrow> cell list list \<Rightarrow> StockData list" where
  "netoStocks h dataRows = map netoPriceDiff (mapRows (netoStock h) 0 dataRows)"

subsection \<open>Standard mode\<close>

text \<open>The test for the simplified input format, on the input's header row.\<close>

definition isSimplified :: "cell list \<Rightarrow> bool" where
  "isSimplified inputHeaders =
     (case cellAt inputHeaders 0 of
        None \<Rightarrow> False
      | Some s \<Rightarrow> s \<noteq> [] \<and> toLowerCase (trim s) = ''empresa'')"

text \<open>The remap of one simplified row into the 33 standard slots.\<close>

definition remapRow :: "host \<Rightarrow> cell list \<Rightarrow> cell list" where
  "remapRow h row =
     (let newRow = replicate (length STANDARD_HEADERS) (Some []);
          newRow = newRow[9 := cellAt row 0, 10 := cellAt row 1, 11 := cellAt row 2,
                          15 := cellAt row 6, 17 := cellAt row 8, 18 := cellAt row 9,
                          19 := cellAt row 10, 23 := cellAt row 14, 24 := cellAt row 15,
                          25 := cellAt row 16, 26 := cellAt row 17,
                          29 := cellAt row 18, 30 := cellAt row 19, 31 := cellAt row 20];
          newRow = (case cellAt row 1 of
                      None \<Rightarrow> newRow
                    | Some t \<Rightarrow>
                        if t \<noteq> [] then
                          newRow[32 := Some (''https://investidor10.com.br/acoes/'' @ trim t)]
                        else newRow);
          price = parseBRNumber (cellAt row 15);
          fair = parseBRNumber (cellAt row 16)
      in if price \<noteq> NegInf \<and> fair \<noteq> NegInf \<and> fair \<noteq> Fin 0 then
           let diff = js_mul (js_div (js_sub price fair) fair) (Fin 100)
           in newRow[28 := Some (replace_first CHR ''.'' CHR '','' (toFixed h diff 2) @ ''%'')]
         else newRow[28 := Some ''0,00%''])"

definition standardStock :: "host \<Rightarrow> nat \<Rightarrow> cell list \<Rightarrow> StockData \<times> nat" where
  "standardStock h k row =
     (let safeRow = padRow (length STANDARD_HEADERS) row;
          (i, k') = idOrUnknown h k (cellAt safeRow 10)
      in (\<lparr>id_str = i,
           raw = safeRow,
           plProjected = parseBRNumber (cellAt safeRow 15),
           plDeviation = parseBRNumber (cellAt safeRow 17),
           dy = parseBRNumber (cellAt safeRow 23),
           marginSafety = parseBRNumber (cellAt safeRow 26),
           cagr = parseBRNumber (cellAt safeRow 18),
           debtEbitda = parseBRNumber (cellAt safeRow 19),
           priceDiff = parseBRNumber (cellAt safeRow 28),
           ticker = cellAt safeRow 10,
           company = cellAt safeRow 9,
           sector = cellAt safeRow 11,
           currentPrice = parseBRNumber (cellAt safeRow 24),
           fairPrice = parseBRNumber (cellAt safeRow 25),
           rankPL = 0, rankDeviation = 0, rankDY = 0, rankMargin = 0,
           rankCAGR = 0, rankDebt = 0, rankTotal = 0, rankGeneral = 0\<rparr>, k'))"

text \<open>The data rows of standard mode, remapped when the input is the simplified format.\<close>

definition standardRows :: "host \<Rightarrow> cell list list \<Rightarrow> cell list list" where
  "standardRows h rows =
     (if isSimplified (hd rows) then map (remapRow h) (tl rows) else tl rows)"

definition standardStocks :: "host \<Rightarrow> cell list list \<Rightarrow> StockData list" where
  "standardStocks h rows = mapRows (standardStock h) 0 (standardRows h rows)"

subsection \<open>processStockData\<close>

definition processStockData :: "host \<Rightarrow> string \<Rightarrow> Mode \<Rightarrow> error + ProcessResult" where
  "processStockData h rawData mode =
     (let rows = splitRows rawData
      in if length rows < 2 then Inl MalformedInput
         else if mode = Neto then
           Inr \<lparr>processed = calculateRanks (netoStocks h (tl rows)),
                headers = NETO_INVEST_HEADERS,
                initialHiddenColumns = [],
                layoutConfig = \<lparr>stickyIndices = [0, 1], tickerIndex = 1, companyIndex = 0,
                                 statusIndex = None, generalRankIndex = None\<rparr>\<rparr>
         else
           Inr \<lparr>processed = calculateRanks (standardStocks h rows),
                headers = STANDARD_HEADERS,
                initialHiddenColumns = (if isSimplified (hd rows) then [1, 27] else []),
                layoutConfig = \<lparr>stickyIndices = [0, 9, 10], tickerIndex = 10, companyIndex = 9,
                                 statusIndex = Some 1, generalRankIndex = Some 0\<rparr>\<rparr>)"

subsection \<open>A concrete host for the examples\<close>

text \<open>
  \<open>toFixed\<close> on exact values: the nearest multiple of \<open>10^-d\<close>, the larger one on a tie
  in magnitude, printed with \<open>d\<close> decimals. It agrees with the built-in wherever the
  double is the exact value and is below \<open>10^21\<close> in magnitude.
\<close>

definition toFixedExact :: "jsnum \<Rightarrow> nat \<Rightarrow> string" where
  "toFixedExact x d =
     (case x of
        NaN \<Rightarrow> ''NaN''
      | PosInf \<Rightarrow> ''Infinity''
      | NegInf \<Rightarrow> ''-Infinity''
      | Fin r \<Rightarrow>
          let n = nat (floor (\<bar>r\<bar> * 10 ^ d + 1 / 2));
              m = natToString n;
              m = replicate (Suc d - length m) CHR ''0'' @ m;
              body = (if d = 0 then m
                      else take (length m - d) m @ ''.'' @ drop (length m - d) m)
          in (if r < 0 then ''-'' else []) @ body)"

definition example_host :: host where
  "example_host = \<lparr>random = (\<lambda>k. ''0.'' @ natToString (Suc k)), toFixed = toFixedExact\<rparr>"

section \<open>Notions of the statements and proofs\<close>

subsection \<open>The parser\<close>




subsection \<open>Ranking\<close>

text \<open>
  The sort key that the comparator of \<open>applyRank\<close> induces on values other than \<open>NaN\<close>:
  finite values first, in the direction of the sort, and both infinities last and equal.
\<close>

definition rankKey :: "SortOrder \<Rightarrow> jsnum \<Rightarrow> nat \<times> rat" where
  "rankKey order v = (case v of Fin r \<Rightarrow> (0, if order = ASC then r else - r) | _ \<Rightarrow> (1, 0))"

text \<open>No metric of any record is \<open>NaN\<close>.\<close>

definition noNaN :: "StockData list \<Rightarrow> bool" where
  "noNaN stocks =
     (\<forall>s\<in>set stocks. plProjected s \<noteq> NaN \<and> plDeviation s \<noteq> NaN \<and> dy s \<noteq> NaN \<and>
        marginSafety s \<noteq> NaN \<and> cagr s \<noteq> NaN \<and> debtEbitda s \<noteq> NaN)"

text \<open>The array after each of the seven calls of \<open>applyRank\<close> and after the rank sum.\<close>

definition ranked1 :: "StockData list \<Rightarrow> StockData list" where
  "ranked1 stocks = applyRank plProjected (\<lambda>n s. s\<lparr>rankPL := n\<rparr>) ASC stocks"

definition ranked2 :: "StockData list \<Rightarrow> StockData list" where
  "ranked2 stocks = applyRank plDeviation (\<lambda>n s. s\<lparr>rankDeviation := n\<rparr>) ASC (ranked1 stocks)"

definition ranked3 :: "StockData list \<Rightarrow> StockData list" where
  "ranked3 stocks = applyRank dy (\<lambda>n s. s\<lparr>rankDY := n\<rparr>) DESC (ranked2 stocks)"

definition ranked4 :: "StockData list \<Rightarrow> StockData list" where
  "ranked4 stocks = applyRank marginSafety (\<lambda>n s. s\<lparr>rankMargin := n\<rparr>) DESC (ranked3 stocks)"

definition ranked5 :: "StockData list \<Rightarrow> StockData list" where
  "ranked5 stocks = applyRank cagr (\<lambda>n s. s\<lparr>rankCAGR := n\<rparr>) DESC (ranked4 stocks)"

definition ranked6 :: "StockData list \<Rightarrow> StockData list" where
  "ranked6 stocks = applyRank debtEbitda (\<lambda>n s. s\<lparr>rankDebt := n\<rparr>) ASC (ranked5 stocks)"

definition totalled :: "StockData list \<Rightarrow> StockData list" where
  "totalled stocks = map sumRanks (ranked6 stocks)"

definition ranked7 :: "StockData list \<Rightarrow> StockData list" where
  "ranked7 stocks =
     applyRank (\<lambda>s. Fin (rat_of_nat (rankTotal s))) (\<lambda>n s. s\<lparr>rankGeneral := n\<rparr>) ASC (totalled stocks)"

text \<open>
  The fields of a record that the ranking engine never writes: everything but the ranks
  and the display row. The first component is the first metric that is ranked.
\<close>

definition dataFields ::
  "StockData \<Rightarrow> jsnum \<times> string \<times> cell \<times> cell \<times> cell \<times> jsnum \<times> jsnum \<times> jsnum \<times> jsnum \<times> jsnum \<times> jsnum \<times> jsnum \<times> jsnum" where
  "dataFields s =
     (plProjected s, id_str s, ticker s, company s, sector s, plDeviation s, dy s,
      marginSafety s, cagr s, debtEbitda s, priceDiff s, currentPrice s, fairPrice s)"

text \<open>The records that \<open>processStockData\<close> hands to \<open>calculateRanks\<close>, in data-row order.\<close>

definition initialStocks :: "host \<Rightarrow> string \<Rightarrow> Mode \<Rightarrow> StockData list" where
  "initialStocks h rawData mode =
     (if mode = Neto then netoStocks h (tl (splitRows rawData))
      else standardStocks h (splitRows rawData))"

text \<open>
  The default order: non-decreasing by \<open>priceDiff\<close>, with negative infinity read as
  positive infinity. \<open>a <= b\<close> is the comparison of the host language, false when either
  side is \<open>NaN\<close>.
\<close>

definition displayKey :: "StockData \<Rightarrow> jsnum" where
  "displayKey s = (if priceDiff s = NegInf then PosInf else priceDiff s)"

definition defaultOrdered :: "StockData list \<Rightarrow> bool" where
  "defaultOrdered stocks = sorted_wrt (\<lambda>a b. js_le (displayKey a) (displayKey b)) stocks"

subsection \<open>The random number source\<close>

text \<open>
  The ticker cell of every data row, as \<open>processStockData\<close> reads it: index 1 of the padded
  row in neto mode, index 10 of the 33-column row (remapped when the input is the
  simplified format) in standard mode.
\<close>

definition tickerCells :: "host \<Rightarrow> string \<Rightarrow> Mode \<Rightarrow> cell list" where
  "tickerCells h rawData mode =
     (if mode = Neto then
        map (\<lambda>row. cellAt (padRow (length NETO_INVEST_HEADERS) row) 1) (tl (splitRows rawData))
      else
        map (\<lambda>row. cellAt (padRow (length STANDARD_HEADERS) row) 10)
          (standardRows h (splitRows rawData)))"

text \<open>A record with its \<open>id\<close> blanked, and a result bundle with the \<open>id\<close> of every record blanked.\<close>

definition eraseId :: "StockData \<Rightarrow> StockData" where
  "eraseId s = s\<lparr>id_str := []\<rparr>"

definition eraseIds :: "error + ProcessResult \<Rightarrow> error + ProcessResult" where
  "eraseIds r =
     (case r of
        Inl e \<Rightarrow> Inl e
      | Inr res \<Rightarrow> Inr (res\<lparr>processed := map eraseId (processed res)\<rparr>))"

subsection \<open>Example inputs\<close>

text \<open>
  Tab-separated text from rows of cells, as the export of the table writes it
  (\<open>rows.map(r => r.join('\t')).join('\n')\<close>); the example inputs are written with it.
\<close>

fun joinWith :: "char \<Rightarrow> string list \<Rightarrow> string" where
  "joinWith c [] = []"
| "joinWith c [x] = x"
| "joinWith c (x # y # ys) = x @ c # joinWith c (y # ys)"

definition tsv :: "string list list \<Rightarrow> string" where
  "tsv rows = joinWith CHR 0x0A (map (joinWith CHR 0x09) rows)"

text \<open>The six metrics and the eight ranks of a record, as lists.\<close>

definition metricsOf :: "StockData \<Rightarrow> jsnum list" where
  "metricsOf s = [plProjected s, plDeviation s, dy s, marginSafety s, cagr s, debtEbitda s]"

definition ranksOf :: "StockData \<Rightarrow> nat list" where
  "ranksOf s = [rankPL s, rankDeviation s, rankDY s, rankMargin s, rankCAGR s, rankDebt s,
                rankTotal s, rankGeneral s]"

definition pricesOf :: "StockData \<Rightarrow> jsnum list" where
  "pricesOf s = [currentPrice s, fairPrice s, priceDiff s]"

text \<open>
  A neto sheet with four data rows. The first row is better than the second on every
  metric; the last two rows agree on P/L projected and have no other metric and no
  price.
\<close>

definition sample_neto :: string where
  "sample_neto = tsv
     [[''Empresa'', ''Codigo''],
      [''Alfa'', ''ALFA3'', [], [], [], [], ''4,0'', [], ''-35%'', ''15%'', ''0,5'', [], [], [],
       ''12%'', ''26,50'', ''45,00'', ''41%''],
      [''Beta'', ''BETA3'', [], [], [], [], ''8,5'', [], ''-21%'', ''8%'', ''2,3'', [], [], [],
       ''5%'', ''16,18'', ''22,33'', ''38%''],
      [''Gama'', ''GAMA3'', [], [], [], [], ''6,0''],
      [''Delta'', ''DELT3'', [], [], [], [], ''6,0'']]"

definition sample_neto_result :: ProcessResult where
  "sample_neto_result = projr (processStockData example_host sample_neto Neto)"

definition zero_price_input :: string where
  "zero_price_input = tsv
     [[''Empresa'', ''Codigo''],
      [''Alfa'', ''ALFA3'', [], [], [], [], [], [], [], [], [], [], [], [], [], ''0,00'', ''10,00'']]"

definition zero_price_result :: ProcessResult where
  "zero_price_result = projr (processStockData example_host zero_price_input Neto)"

text \<open>A header row and one data row that consists of two empty cells.\<close>

definition blank_row_input :: string where
  "blank_row_input = tsv [[''Empresa'', ''Codigo''], [[], []]]"

text \<open>A neto sheet whose first data row has the text \<open>Infinity\<close> as its fair price.\<close>

definition infinite_fair_input :: string where
  "infinite_fair_input = tsv
     [[''Empresa'', ''Codigo''],
      [''Alfa'', ''ALFA3'', [], [], [], [], [], [], [], [], [], [], [], [], [], ''10,00'', ''Infinity''],
      [''Beta'', ''BETA3'', [], [], [], [], [], [], [], [], [], [], [], [], [], ''10,00'', ''20,00'']]"

definition infinite_fair_result :: ProcessResult where
  "infinite_fair_result = projr (processStockData example_host infinite_fair_input Neto)"

text \<open>A neto sheet whose data row has 30 cells.\<close>

definition long_neto_input :: string where
  "long_neto_input = tsv
     [[''Empresa'', ''Codigo''],
      [''Alfa'', ''ALFA3'', ''Bancos''] @ replicate 26 [] @ [''fim'']]"

definition long_neto_result :: ProcessResult where
  "long_neto_result = projr (processStockData example_host long_neto_input Neto)"

text \<open>The simplified format in standard mode, with a data row of a single cell.\<close>

definition short_simplified_input :: string where
  "short_simplified_input = tsv [[''Empresa'', ''Codigo''], [''Acme'']]"

definition short_simplified_result :: ProcessResult where
  "short_simplified_result = projr (processStockData example_host short_simplified_input Standard)"

text \<open>
  A display row is well formed for a header count when it has at least that many cells
  and every cell is a string.
\<close>

definition wellFormedRow :: "nat \<Rightarrow> cell list \<Rightarrow> bool" where
  "wellFormedRow n row = (n \<le> length row \<and> (\<forall>c\<in>set row. c \<noteq> None))"

section \<open>The parser\<close>

lemma header_lengths: "length STANDARD_HEADERS = 33" "length NETO_INVEST_HEADERS = 21"
  by (simp_all add: STANDARD_HEADERS_def NETO_INVEST_HEADERS_def)

lemma digitsVal_snoc: "digitsVal (ds @ [c]) = 10 * digitsVal ds + digitVal c"
  by (simp add: digitsVal_def)

lemma digit_char:
  assumes "d < 10"
  shows "isDigit (char_of (48 + d))" and "digitVal (char_of (48 + d)) = int d"
proof -
  have "of_char (char_of (48 + d) :: char) = (48 + d) mod 256" by simp
  also have "\<dots> = 48 + d" using assms by simp
  finally have n: "(of_char (char_of (48 + d) :: char) :: nat) = 48 + d" .
  then show "isDigit (char_of (48 + d))" using assms by (simp add: isDigit_def)
  have "(of_char (char_of (48 + d) :: char) :: int) = int (of_char (char_of (48 + d) :: char))"
    by (simp only: of_nat_of_char)
  with n show "digitVal (char_of (48 + d)) = int d" by (simp add: digitVal_def)
qed

text \<open>The digits written for a rank read back as the rank.\<close>

lemma natToString_digits:
  "(\<forall>c\<in>set (natToString n). isDigit c) \<and> digitsVal (natToString n) = int n"
proof (induction n rule: natToString.induct)
  case (1 n)
  show ?case
  proof (cases "n < 10")
    case True
    then have "natToString n = [char_of (48 + n)]" by (subst natToString.simps) simp
    with digit_char[OF True] show ?thesis by (simp add: digitsVal_def)
  next
    case False
    then have s: "natToString n = natToString (n div 10) @ [char_of (48 + n mod 10)]"
      by (subst natToString.simps) simp
    have d: "n mod 10 < 10" by simp
    have v: "10 * int (n div 10) + int (n mod 10) = int n" by presburger
    from 1[OF False] digit_char[OF d] show ?thesis
      by (simp add: s digitsVal_snoc v)
  qed
qed







lemma parseBRNumber_not_NaN: "parseBRNumber c \<noteq> NaN"
  by (auto simp: parseBRNumber_def isNaN_def Let_def split: option.splits)









section \<open>The sort\<close>

lemma mset_sort_insert: "mset (sort_insert cmp x ys) = add_mset x (mset ys)"
  by (induction ys) auto

lemma mset_array_sort: "mset (array_sort cmp xs) = mset xs"
  unfolding array_sort_def by (induction xs) (auto simp: mset_sort_insert)

lemma length_array_sort: "length (array_sort cmp xs) = length xs"
  by (metis mset_array_sort size_mset)

lemma set_array_sort: "set (array_sort cmp xs) = set xs"
  by (metis mset_array_sort set_mset_mset)

lemma sort_insert_insort_key:
  "\<forall>y\<in>set ys. js_gt0 (cmp x y) = (k y < k x) \<Longrightarrow> sort_insert cmp x ys = insort_key k x ys"
  by (induction ys) (auto simp: not_less)

lemma array_sort_sort_key:
  "\<forall>x\<in>set xs. \<forall>y\<in>set xs. js_gt0 (cmp x y) = (k y < k x) \<Longrightarrow> array_sort cmp xs = sort_key k xs"
proof (induction xs)
  case Nil
  show ?case by (simp add: array_sort_def)
next
  case (Cons a xs)
  then have IH: "array_sort cmp xs = sort_key k xs" by simp
  have "\<forall>y\<in>set (sort_key k xs). js_gt0 (cmp a y) = (k y < k a)"
    using Cons.prems by simp
  then have "sort_insert cmp a (sort_key k xs) = insort_key k a (sort_key k xs)"
    by (rule sort_insert_insort_key)
  with IH show ?case by (simp add: array_sort_def)
qed

lemma sort_insert_map:
  assumes "\<And>a b. cmp (f a) (f b) = cmp a b"
  shows "sort_insert cmp (f x) (map f ys) = map f (sort_insert cmp x ys)"
  using assms by (induction ys) auto

lemma array_sort_map:
  assumes "\<And>a b. cmp (f a) (f b) = cmp a b"
  shows "array_sort cmp (map f xs) = map f (array_sort cmp xs)"
proof (induction xs)
  case Nil
  show ?case by (simp add: array_sort_def)
next
  case (Cons x xs)
  have "array_sort cmp (map f (x # xs)) = sort_insert cmp (f x) (array_sort cmp (map f xs))"
    by (simp add: array_sort_def)
  also have "\<dots> = sort_insert cmp (f x) (map f (array_sort cmp xs))" by (simp only: Cons.IH)
  also have "\<dots> = map f (sort_insert cmp x (array_sort cmp xs))"
    using assms by (rule sort_insert_map)
  finally show ?case by (simp add: array_sort_def)
qed

lemma rankCompare_key:
  "key a \<noteq> NaN \<Longrightarrow> key b \<noteq> NaN \<Longrightarrow>
   js_gt0 (rankCompare key order a b) = (rankKey order (key b) < rankKey order (key a))"
  by (cases "key a"; cases "key b"; cases order)
     (auto simp: rankCompare_def safeVal_def rankKey_def Let_def)

lemma defaultCompare_key:
  assumes "priceDiff a \<noteq> NaN" "priceDiff b \<noteq> NaN"
  shows "js_gt0 (defaultCompare a b) = (rankKey ASC (priceDiff b) < rankKey ASC (priceDiff a))"
  using assms
  by (cases "priceDiff a"; cases "priceDiff b") (auto simp: defaultCompare_def rankKey_def Let_def)

lemma displayKey_le:
  assumes "priceDiff a \<noteq> NaN" "priceDiff b \<noteq> NaN"
    and "rankKey ASC (priceDiff a) \<le> rankKey ASC (priceDiff b)"
  shows "js_le (displayKey a) (displayKey b)"
  using assms
  by (cases "priceDiff a"; cases "priceDiff b") (auto simp: displayKey_def rankKey_def)

lemma array_sort_defaultOrdered:
  assumes "\<forall>s\<in>set xs. priceDiff s \<noteq> NaN"
  shows "defaultOrdered (array_sort defaultCompare xs)"
proof -
  let ?k = "\<lambda>s. rankKey ASC (priceDiff s)"
  have eq: "array_sort defaultCompare xs = sort_key ?k xs"
    by (rule array_sort_sort_key) (use assms in \<open>simp add: defaultCompare_key\<close>)
  have "sorted (map ?k (sort_key ?k xs))" by (rule sorted_sort_key)
  then have "sorted_wrt (\<lambda>a b. ?k a \<le> ?k b) (sort_key ?k xs)" by (simp add: sorted_map)
  then have "sorted_wrt (\<lambda>a b. js_le (displayKey a) (displayKey b)) (sort_key ?k xs)"
  proof (rule sorted_wrt_mono_rel[rotated])
    fix a b assume "a \<in> set (sort_key ?k xs)" "b \<in> set (sort_key ?k xs)" "?k a \<le> ?k b"
    with assms show "js_le (displayKey a) (displayKey b)" by (simp add: displayKey_le)
  qed
  then show ?thesis by (simp add: defaultOrdered_def eq)
qed

section \<open>One call of applyRank\<close>

lemma length_assignRanks: "length (assignRanks upd i xs) = length xs"
  by (induction xs arbitrary: i) auto

lemma nth_assignRanks:
  "j < length xs \<Longrightarrow> assignRanks upd i xs ! j = upd (i + j + 1) (xs ! j)"
proof (induction xs arbitrary: i j)
  case Nil
  then show ?case by simp
next
  case (Cons a xs)
  then show ?case by (cases j) auto
qed

lemma map_assignRanks_frame:
  "(\<And>n s. p (upd n s) = p s) \<Longrightarrow> map p (assignRanks upd i xs) = map p xs"
  by (induction xs arbitrary: i) auto

lemma map_assignRanks_rank:
  "(\<And>n s. r (upd n s) = n) \<Longrightarrow> map r (assignRanks upd i xs) = [Suc i ..< Suc i + length xs]"
proof (induction xs arbitrary: i)
  case Nil
  show ?case by simp
next
  case (Cons a xs)
  have "[Suc i ..< Suc i + length (a # xs)] = Suc i # [Suc (Suc i) ..< Suc (Suc i) + length xs]"
    by (subst upt_rec) simp
  with Cons show ?case by simp
qed

lemma assignRanks_map:
  assumes "\<And>n s. upd n (f s) = f (upd n s)"
  shows "assignRanks upd i (map f xs) = map f (assignRanks upd i xs)"
  using assms by (induction xs arbitrary: i) auto

lemma length_applyRank: "length (applyRank key upd ord xs) = length xs"
  by (simp add: applyRank_def length_assignRanks length_array_sort)

lemma applyRank_frame:
  assumes "\<And>n s. p (upd n s) = p s"
  shows "mset (map p (applyRank key upd ord xs)) = mset (map p xs)"
proof -
  have "map p (applyRank key upd ord xs) = map p (array_sort (rankCompare key ord) xs)"
    unfolding applyRank_def using assms by (rule map_assignRanks_frame)
  then show ?thesis by (simp add: mset_array_sort)
qed

lemma applyRank_ranks:
  assumes "\<And>n s. r (upd n s) = n"
  shows "map r (applyRank key upd ord xs) = [1 ..< Suc (length xs)]"
  unfolding applyRank_def using map_assignRanks_rank[of r upd 0, OF assms]
  by (simp add: length_array_sort)

lemma applyRank_sort_key:
  assumes "\<forall>s\<in>set xs. key s \<noteq> NaN"
  shows "applyRank key upd ord xs = assignRanks upd 0 (sort_key (\<lambda>s. rankKey ord (key s)) xs)"
proof -
  have "array_sort (rankCompare key ord) xs = sort_key (\<lambda>s. rankKey ord (key s)) xs"
    by (rule array_sort_sort_key) (use assms in \<open>simp add: rankCompare_key\<close>)
  then show ?thesis by (simp add: applyRank_def)
qed

lemma applyRank_map:
  assumes "\<And>n s. upd n (f s) = f (upd n s)" and "\<And>s. key (f s) = key s"
  shows "applyRank key upd ord (map f xs) = map f (applyRank key upd ord xs)"
proof -
  have "rankCompare key ord (f a) (f b) = rankCompare key ord a b" for a b
    by (simp add: rankCompare_def assms(2))
  then have "array_sort (rankCompare key ord) (map f xs) = map f (array_sort (rankCompare key ord) xs)"
    by (rule array_sort_map)
  moreover have "assignRanks upd 0 (map f ys) = map f (assignRanks upd 0 ys)" for ys
    using assms(1) by (rule assignRanks_map)
  ultimately show ?thesis by (simp add: applyRank_def)
qed

text \<open>After one call, a record with a strictly smaller sort key has the smaller rank.\<close>

lemma applyRank_respects_key:
  assumes nan: "\<forall>s\<in>set xs. key s \<noteq> NaN"
    and r: "\<And>n s. r (upd n s) = n"
    and k: "\<And>n s. key (upd n s) = key s"
    and A: "A \<in> set (applyRank key upd ord xs)"
    and B: "B \<in> set (applyRank key upd ord xs)"
    and lt: "rankKey ord (key A) < rankKey ord (key B)"
  shows "r A < r B"
proof -
  let ?k = "\<lambda>s. rankKey ord (key s)"
  let ?Z = "sort_key ?k xs"
  let ?Y = "assignRanks upd 0 ?Z"
  have Y: "applyRank key upd ord xs = ?Y" using nan by (rule applyRank_sort_key)
  have len: "length ?Y = length ?Z" by (simp add: length_assignRanks)
  from A Y obtain i where i: "i < length ?Z" "A = ?Y ! i"
    by (metis in_set_conv_nth len)
  from B Y obtain j where j: "j < length ?Z" "B = ?Y ! j"
    by (metis in_set_conv_nth len)
  have Ai: "A = upd (i + 1) (?Z ! i)" using i by (simp add: nth_assignRanks)
  have Bj: "B = upd (j + 1) (?Z ! j)" using j by (simp add: nth_assignRanks)
  have srt: "sorted (map ?k ?Z)" by (rule sorted_sort_key)
  have "i < j"
  proof (rule ccontr)
    assume "\<not> i < j"
    then have "j \<le> i" by simp
    with srt i have "map ?k ?Z ! j \<le> map ?k ?Z ! i"
      by (simp add: sorted_iff_nth_mono)
    with i j \<open>j \<le> i\<close> have "?k (?Z ! j) \<le> ?k (?Z ! i)" by simp
    with lt Ai Bj k show False by simp
  qed
  with Ai Bj r show ?thesis by simp
qed

lemma sorted_wrt_filter_nth:
  "sorted_wrt R (filter P zs) \<Longrightarrow> i < j \<Longrightarrow> j < length zs \<Longrightarrow> P (zs ! i) \<Longrightarrow> P (zs ! j)
   \<Longrightarrow> R (zs ! i) (zs ! j)"
proof (induction zs arbitrary: i j)
  case Nil
  then show ?case by simp
next
  case (Cons z zs)
  show ?case
  proof (cases i)
    case 0
    with Cons.prems obtain j' where j': "j = Suc j'" by (cases j) auto
    with Cons.prems 0 have "P z" "zs ! j' \<in> set (filter P zs)" by auto
    with Cons.prems(1) 0 j' show ?thesis by auto
  next
    case (Suc i')
    with Cons.prems obtain j' where j': "j = Suc j'" by (cases j) auto
    have "sorted_wrt R (filter P zs)" using Cons.prems(1) by (auto split: if_splits)
    with Cons.IH[of i' j'] Cons.prems Suc j' show ?thesis by auto
  qed
qed

text \<open>
  After one call, records with equal values keep the order of any field that increased
  along the array before the call.
\<close>

lemma applyRank_ties:
  assumes nan: "\<forall>s\<in>set xs. key s \<noteq> NaN"
    and r: "\<And>n s. r (upd n s) = n"
    and k: "\<And>n s. key (upd n s) = key s"
    and p: "\<And>n s. prev (upd n s) = prev s"
    and inc: "sorted_wrt (<) (map prev xs)"
    and A: "A \<in> set (applyRank key upd ord xs)"
    and B: "B \<in> set (applyRank key upd ord xs)"
    and tie: "key A = key B"
    and lt: "(prev A :: nat) < prev B"
  shows "r A < r B"
proof -
  let ?k = "\<lambda>s. rankKey ord (key s)"
  let ?Z = "sort_key ?k xs"
  let ?Y = "assignRanks upd 0 ?Z"
  let ?P = "\<lambda>s. ?k s = rankKey ord (key A)"
  have Y: "applyRank key upd ord xs = ?Y" using nan by (rule applyRank_sort_key)
  have len: "length ?Y = length ?Z" by (simp add: length_assignRanks)
  from A Y obtain i where i: "i < length ?Z" "A = ?Y ! i"
    by (metis in_set_conv_nth len)
  from B Y obtain j where j: "j < length ?Z" "B = ?Y ! j"
    by (metis in_set_conv_nth len)
  have Ai: "A = upd (i + 1) (?Z ! i)" using i by (simp add: nth_assignRanks)
  have Bj: "B = upd (j + 1) (?Z ! j)" using j by (simp add: nth_assignRanks)
  have kA: "key (?Z ! i) = key A" using Ai k by simp
  have kB: "key (?Z ! j) = key A" using Bj k tie by simp
  have pA: "prev (?Z ! i) = prev A" using Ai p by simp
  have pB: "prev (?Z ! j) = prev B" using Bj p by simp
  have stable: "filter ?P ?Z = filter ?P xs" by (rule sort_key_stable)
  have "sorted_wrt (\<lambda>a b. prev a < prev b) xs" using inc by (simp add: sorted_wrt_map)
  then have "sorted_wrt (\<lambda>a b. prev a < prev b) (filter ?P xs)" by (rule sorted_wrt_filter)
  with stable have sf: "sorted_wrt (\<lambda>a b. prev a < prev b) (filter ?P ?Z)" by simp
  have "i < j"
  proof (rule ccontr)
    assume "\<not> i < j"
    then consider "i = j" | "j < i" by linarith
    then show False
    proof cases
      case 1
      with pA pB lt show False by simp
    next
      case 2
      from sorted_wrt_filter_nth[OF sf 2 i(1)] kA kB have "prev (?Z ! j) < prev (?Z ! i)" by simp
      with pA pB lt show False by simp
    qed
  qed
  with Ai Bj r show ?thesis by simp
qed

lemma filter_pull:
  assumes "\<And>s. Q (g s) = P s"
  shows "map g (filter P xs) = filter Q (map g xs)"
  using assms by (induction xs) auto

lemma stable_on_value:
  "filter (\<lambda>s. key s = v) (sort_key (\<lambda>s. rankKey ord (key s)) xs) = filter (\<lambda>s. key s = v) xs"
proof -
  let ?k = "\<lambda>s. rankKey ord (key s)"
  have "filter (\<lambda>s. key s = v) ys = filter (\<lambda>s. key s = v) (filter (\<lambda>s. ?k s = rankKey ord v) ys)" for ys
    by (induction ys) auto
  then show ?thesis by (metis sort_key_stable)
qed

lemma sorted_by_rank_unique:
  fixes xs ys :: "(nat \<times> 'a) list"
  assumes m: "mset xs = mset ys"
    and sx: "sorted (map fst xs)" and sy: "sorted (map fst ys)"
    and dy: "distinct (map fst ys)"
  shows "xs = ys"
proof -
  have "mset (map fst xs) = mset (map fst ys)" using m by simp
  then have dx: "distinct (map fst xs)" using dy by (metis mset_eq_imp_distinct_iff)
  have set_eq: "set xs = set ys" using m by (rule mset_eq_setD)
  have "inj_on fst (set ys)" using dy by (simp add: distinct_map)
  then have inj: "inj_on fst (set xs \<union> set ys)" using set_eq by simp
  show ?thesis by (rule map_sorted_distinct_set_unique[OF inj sx dx sy dy set_eq])
qed

section \<open>The write-back\<close>

text \<open>The write-back keeps the length of the row and every position other than 0 and 2 to 8.\<close>

lemma writeBack_length: "length (raw (writeBack s)) = length (raw s)"
  by (simp add: writeBack_def)

lemma writeBack_other_positions:
  "i \<notin> {0, 2, 3, 4, 5, 6, 7, 8} \<Longrightarrow> raw (writeBack s) ! i = raw s ! i"
  by (simp add: writeBack_def)

lemma writeBack_rank_columns:
  assumes "30 \<le> length (raw s)"
  shows "map (\<lambda>i. raw (writeBack s) ! i) [0, 2, 3, 4, 5, 6, 7, 8] =
     [Some (natToString (rankGeneral s)), Some (natToString (rankPL s)),
      Some (natToString (rankDeviation s)), Some (natToString (rankDY s)),
      Some (natToString (rankMargin s)), Some (natToString (rankCAGR s)),
      Some (natToString (rankDebt s)), Some (natToString (rankTotal s))]"
proof -
  have "raw s \<noteq> []" using assms by auto
  then show ?thesis using assms by (simp add: writeBack_def nth_list_update)
qed

lemma writeBack_short: "length (raw s) < 30 \<Longrightarrow> writeBack s = s"
  by (simp add: writeBack_def)

lemma length_writeBackAll: "length (writeBackAll xs) = length xs"
  by (simp add: writeBackAll_def)

section \<open>The stages of calculateRanks\<close>

text \<open>
  A stage changes one field of every record and the order of the array. What a later
  stage leaves alone is stated on the multiset of the values of a projection \<open>p\<close> that
  ignores the field: the rules below rewrite a projection of a later array to the same
  projection of an earlier one.
\<close>

lemma metricRanks_ranked6: "metricRanks stocks = ranked6 stocks"
  by (simp add: metricRanks_def ranked6_def ranked5_def ranked4_def ranked3_def ranked2_def
      ranked1_def Let_def)

lemma calculateRanks_ranked7:
  "calculateRanks stocks = array_sort defaultCompare (writeBackAll (ranked7 stocks))"
  by (simp add: calculateRanks_def metricRanks_ranked6 ranked7_def totalled_def Let_def)

lemma frame_array_sort: "image_mset p (mset (array_sort cmp xs)) = image_mset p (mset xs)"
  by (simp add: mset_array_sort)

lemma frame_applyRank:
  assumes "\<And>n s. p (upd n s) = p s"
  shows "image_mset p (mset (applyRank key upd ord xs)) = image_mset p (mset xs)"
  using applyRank_frame[of p upd key ord xs, OF assms] by simp

lemma frame_writeBackAll:
  assumes "\<forall>s t. p (s\<lparr>raw := t\<rparr>) = p s"
  shows "image_mset p (mset (writeBackAll xs)) = image_mset p (mset xs)"
proof -
  have "p (writeBack s) = p s" for s using assms by (simp add: writeBack_def)
  then have "map p (map writeBack xs) = map p xs" by simp
  then have wb: "map p (map writeBack xs) = map p xs" by simp
  have "writeBackAll xs = map writeBack xs \<or> writeBackAll xs = xs"
    by (simp add: writeBackAll_def)
  with wb have "map p (writeBackAll xs) = map p xs" by auto
  then have "mset (map p (writeBackAll xs)) = mset (map p xs)" by (rule arg_cong)
  then show ?thesis by simp
qed

lemma frame_calculateRanks:
  "\<forall>s t. p (s\<lparr>raw := t\<rparr>) = p s \<Longrightarrow>
   image_mset p (mset (calculateRanks stocks)) = image_mset p (mset (ranked7 stocks))"
  by (simp add: calculateRanks_ranked7 frame_array_sort frame_writeBackAll)

lemma frame_ranked7:
  "\<forall>s n. p (s\<lparr>rankGeneral := n\<rparr>) = p s \<Longrightarrow>
   image_mset p (mset (ranked7 stocks)) = image_mset p (mset (totalled stocks))"
  unfolding ranked7_def by (rule frame_applyRank) simp

lemma frame_totalled:
  assumes "\<forall>s n. p (s\<lparr>rankTotal := n\<rparr>) = p s"
  shows "image_mset p (mset (totalled stocks)) = image_mset p (mset (ranked6 stocks))"
proof -
  have "p (sumRanks s) = p s" for s using assms by (simp add: sumRanks_def)
  then have "map p (map sumRanks (ranked6 stocks)) = map p (ranked6 stocks)" by simp
  then have "mset (map p (totalled stocks)) = mset (map p (ranked6 stocks))"
    by (simp only: totalled_def)
  then show ?thesis by simp
qed

lemma frame_ranked6:
  "\<forall>s n. p (s\<lparr>rankDebt := n\<rparr>) = p s \<Longrightarrow>
   image_mset p (mset (ranked6 stocks)) = image_mset p (mset (ranked5 stocks))"
  unfolding ranked6_def by (rule frame_applyRank) simp

lemma frame_ranked5:
  "\<forall>s n. p (s\<lparr>rankCAGR := n\<rparr>) = p s \<Longrightarrow>
   image_mset p (mset (ranked5 stocks)) = image_mset p (mset (ranked4 stocks))"
  unfolding ranked5_def by (rule frame_applyRank) simp

lemma frame_ranked4:
  "\<forall>s n. p (s\<lparr>rankMargin := n\<rparr>) = p s \<Longrightarrow>
   image_mset p (mset (ranked4 stocks)) = image_mset p (mset (ranked3 stocks))"
  unfolding ranked4_def by (rule frame_applyRank) simp

lemma frame_ranked3:
  "\<forall>s n. p (s\<lparr>rankDY := n\<rparr>) = p s \<Longrightarrow>
   image_mset p (mset (ranked3 stocks)) = image_mset p (mset (ranked2 stocks))"
  unfolding ranked3_def by (rule frame_applyRank) simp

lemma frame_ranked2:
  "\<forall>s n. p (s\<lparr>rankDeviation := n\<rparr>) = p s \<Longrightarrow>
   image_mset p (mset (ranked2 stocks)) = image_mset p (mset (ranked1 stocks))"
  unfolding ranked2_def by (rule frame_applyRank) simp

lemma frame_ranked1:
  "\<forall>s n. p (s\<lparr>rankPL := n\<rparr>) = p s \<Longrightarrow>
   image_mset p (mset (ranked1 stocks)) = image_mset p (mset stocks)"
  unfolding ranked1_def by (rule frame_applyRank) simp

lemmas frames = frame_calculateRanks frame_ranked7 frame_totalled frame_ranked6 frame_ranked5
  frame_ranked4 frame_ranked3 frame_ranked2 frame_ranked1

lemma image_mset_eq_memD:
  assumes "image_mset p (mset R) = image_mset p (mset Y)" and "A \<in> set R"
  shows "\<exists>A'\<in>set Y. p A' = p A"
proof -
  from assms(2) have "p A \<in># image_mset p (mset R)" by simp
  with assms(1) have "p A \<in># image_mset p (mset Y)" by simp
  then show ?thesis by auto
qed

lemma respects_transfer:
  assumes eq: "image_mset (\<lambda>s. (key s, r s)) (mset R) =
               image_mset (\<lambda>s. (key s, r s)) (mset (applyRank key upd ord X))"
    and nan: "\<forall>s\<in>set X. key s \<noteq> NaN"
    and r: "\<And>n s. r (upd n s) = n"
    and k: "\<And>n s. key (upd n s) = key s"
    and A: "A \<in> set R" and B: "B \<in> set R"
    and lt: "rankKey ord (key A) < rankKey ord (key B)"
  shows "r A < r B"
proof -
  from image_mset_eq_memD[OF eq A] obtain A' where
    A': "A' \<in> set (applyRank key upd ord X)" "key A' = key A" "r A' = r A" by auto
  from image_mset_eq_memD[OF eq B] obtain B' where
    B': "B' \<in> set (applyRank key upd ord X)" "key B' = key B" "r B' = r B" by auto
  have "r A' < r B'"
    using nan r k A'(1) B'(1) by (rule applyRank_respects_key) (simp add: A'(2) B'(2) lt)
  then show ?thesis by (simp add: A'(3) B'(3))
qed

lemma ties_transfer:
  assumes eq: "image_mset (\<lambda>s. (key s, prev s, r s)) (mset R) =
               image_mset (\<lambda>s. (key s, prev s, r s)) (mset (applyRank key upd ord X))"
    and nan: "\<forall>s\<in>set X. key s \<noteq> NaN"
    and r: "\<And>n s. r (upd n s) = n"
    and k: "\<And>n s. key (upd n s) = key s"
    and p: "\<And>n s. prev (upd n s) = prev s"
    and inc: "sorted_wrt (<) (map prev X)"
    and A: "A \<in> set R" and B: "B \<in> set R"
    and tie: "key A = key B"
    and lt: "(prev A :: nat) < prev B"
  shows "r A < r B"
proof -
  from image_mset_eq_memD[OF eq A] obtain A' where
    A': "A' \<in> set (applyRank key upd ord X)" "key A' = key A" "prev A' = prev A" "r A' = r A"
    by auto
  from image_mset_eq_memD[OF eq B] obtain B' where
    B': "B' \<in> set (applyRank key upd ord X)" "key B' = key B" "prev B' = prev B" "r B' = r B"
    by auto
  have "r A' < r B'"
    using nan r k p inc A'(1) B'(1)
    by (rule applyRank_ties) (simp_all add: A'(2,3) B'(2,3) tie lt)
  then show ?thesis by (simp add: A'(4) B'(4))
qed

lemma perm_transfer:
  assumes eq: "image_mset r (mset R) = image_mset r (mset (applyRank key upd ord X))"
    and r: "\<And>n s. r (upd n s) = n"
  shows "mset (map r R) = mset [1 ..< Suc (length X)]"
proof -
  have "mset (map r R) = mset (map r (applyRank key upd ord X))" using eq by simp
  also have "map r (applyRank key upd ord X) = [1 ..< Suc (length X)]"
    using r by (rule applyRank_ranks)
  finally show ?thesis .
qed

lemma nan_transfer:
  assumes "image_mset key (mset X) = image_mset key (mset stocks)"
    and "\<forall>s\<in>set stocks. key s \<noteq> NaN"
  shows "\<forall>s\<in>set X. key s \<noteq> NaN"
proof
  fix s assume "s \<in> set X"
  from image_mset_eq_memD[OF assms(1) this] assms(2) show "key s \<noteq> NaN" by auto
qed

lemma length_ranked1: "length (ranked1 stocks) = length stocks"
  by (simp add: ranked1_def length_applyRank)

lemma length_ranked2: "length (ranked2 stocks) = length stocks"
  by (simp add: ranked2_def length_applyRank length_ranked1)

lemma length_ranked3: "length (ranked3 stocks) = length stocks"
  by (simp add: ranked3_def length_applyRank length_ranked2)

lemma length_ranked4: "length (ranked4 stocks) = length stocks"
  by (simp add: ranked4_def length_applyRank length_ranked3)

lemma length_ranked5: "length (ranked5 stocks) = length stocks"
  by (simp add: ranked5_def length_applyRank length_ranked4)

lemma length_ranked6: "length (ranked6 stocks) = length stocks"
  by (simp add: ranked6_def length_applyRank length_ranked5)

lemma length_totalled: "length (totalled stocks) = length stocks"
  by (simp add: totalled_def length_ranked6)

lemma length_ranked7: "length (ranked7 stocks) = length stocks"
  by (simp add: ranked7_def length_applyRank length_totalled)

lemma length_calculateRanks: "length (calculateRanks stocks) = length stocks"
  by (simp add: calculateRanks_ranked7 length_array_sort length_writeBackAll length_ranked7)

lemmas stage_lengths = length_ranked1 length_ranked2 length_ranked3 length_ranked4
  length_ranked5 length_ranked6 length_totalled length_ranked7

subsection \<open>Permutations\<close>

text \<open>Every rank field is a permutation of \<open>1..N\<close> in the result of \<open>calculateRanks\<close>.\<close>

lemma perm_rankPL: "mset (map rankPL (calculateRanks stocks)) = mset [1 ..< Suc (length stocks)]"
proof -
  have "image_mset rankPL (mset (calculateRanks stocks)) = image_mset rankPL (mset (ranked1 stocks))"
    by (simp add: frames)
  then show ?thesis unfolding ranked1_def by (rule perm_transfer) simp
qed

lemma perm_rankDeviation:
  "mset (map rankDeviation (calculateRanks stocks)) = mset [1 ..< Suc (length stocks)]"
proof -
  have "image_mset rankDeviation (mset (calculateRanks stocks)) =
        image_mset rankDeviation (mset (ranked2 stocks))"
    by (simp add: frames)
  then have "mset (map rankDeviation (calculateRanks stocks)) = mset [1 ..< Suc (length (ranked1 stocks))]"
    unfolding ranked2_def by (rule perm_transfer) simp
  then show ?thesis by (simp add: stage_lengths)
qed

lemma perm_rankDY:
  "mset (map rankDY (calculateRanks stocks)) = mset [1 ..< Suc (length stocks)]"
proof -
  have "image_mset rankDY (mset (calculateRanks stocks)) = image_mset rankDY (mset (ranked3 stocks))"
    by (simp add: frames)
  then have "mset (map rankDY (calculateRanks stocks)) = mset [1 ..< Suc (length (ranked2 stocks))]"
    unfolding ranked3_def by (rule perm_transfer) simp
  then show ?thesis by (simp add: stage_lengths)
qed

lemma perm_rankMargin:
  "mset (map rankMargin (calculateRanks stocks)) = mset [1 ..< Suc (length stocks)]"
proof -
  have "image_mset rankMargin (mset (calculateRanks stocks)) = image_mset rankMargin (mset (ranked4 stocks))"
    by (simp add: frames)
  then have "mset (map rankMargin (calculateRanks stocks)) = mset [1 ..< Suc (length (ranked3 stocks))]"
    unfolding ranked4_def by (rule perm_transfer) simp
  then show ?thesis by (simp add: stage_lengths)
qed

lemma perm_rankCAGR:
  "mset (map rankCAGR (calculateRanks stocks)) = mset [1 ..< Suc (length stocks)]"
proof -
  have "image_mset rankCAGR (mset (calculateRanks stocks)) = image_mset rankCAGR (mset (ranked5 stocks))"
    by (simp add: frames)
  then have "mset (map rankCAGR (calculateRanks stocks)) = mset [1 ..< Suc (length (ranked4 stocks))]"
    unfolding ranked5_def by (rule perm_transfer) simp
  then show ?thesis by (simp add: stage_lengths)
qed

lemma perm_rankDebt:
  "mset (map rankDebt (calculateRanks stocks)) = mset [1 ..< Suc (length stocks)]"
proof -
  have "image_mset rankDebt (mset (calculateRanks stocks)) = image_mset rankDebt (mset (ranked6 stocks))"
    by (simp add: frames)
  then have "mset (map rankDebt (calculateRanks stocks)) = mset [1 ..< Suc (length (ranked5 stocks))]"
    unfolding ranked6_def by (rule perm_transfer) simp
  then show ?thesis by (simp add: stage_lengths)
qed

lemma perm_rankGeneral:
  "mset (map rankGeneral (calculateRanks stocks)) = mset [1 ..< Suc (length stocks)]"
proof -
  have "image_mset rankGeneral (mset (calculateRanks stocks)) = image_mset rankGeneral (mset (ranked7 stocks))"
    by (simp add: frames)
  then have "mset (map rankGeneral (calculateRanks stocks)) = mset [1 ..< Suc (length (totalled stocks))]"
    unfolding ranked7_def by (rule perm_transfer) simp
  then show ?thesis by (simp add: stage_lengths)
qed

subsection \<open>Direction\<close>

lemma respects_plProjected:
  assumes "noNaN stocks" "A \<in> set (calculateRanks stocks)" "B \<in> set (calculateRanks stocks)"
    and "rankKey ASC (plProjected A) < rankKey ASC (plProjected B)"
  shows "rankPL A < rankPL B"
proof -
  have eq: "image_mset (\<lambda>s. (plProjected s, rankPL s)) (mset (calculateRanks stocks)) =
        image_mset (\<lambda>s. (plProjected s, rankPL s)) (mset (ranked1 stocks))"
    by (simp add: frames)
  have nan: "\<forall>s\<in>set stocks. plProjected s \<noteq> NaN" using assms(1) by (simp add: noNaN_def)
  show ?thesis
    by (rule respects_transfer[OF eq[unfolded ranked1_def] nan _ _ assms(2,3,4)]) simp_all
qed

lemma respects_plDeviation:
  assumes "noNaN stocks" "A \<in> set (calculateRanks stocks)" "B \<in> set (calculateRanks stocks)"
    and "rankKey ASC (plDeviation A) < rankKey ASC (plDeviation B)"
  shows "rankDeviation A < rankDeviation B"
proof -
  have eq: "image_mset (\<lambda>s. (plDeviation s, rankDeviation s)) (mset (calculateRanks stocks)) =
        image_mset (\<lambda>s. (plDeviation s, rankDeviation s)) (mset (ranked2 stocks))"
    by (simp add: frames)
  have "image_mset plDeviation (mset (ranked1 stocks)) = image_mset plDeviation (mset stocks)"
    by (simp add: frames)
  then have nan: "\<forall>s\<in>set (ranked1 stocks). plDeviation s \<noteq> NaN"
    by (rule nan_transfer) (use assms(1) in \<open>simp add: noNaN_def\<close>)
  show ?thesis
    by (rule respects_transfer[OF eq[unfolded ranked2_def] nan _ _ assms(2,3,4)]) simp_all
qed

lemma respects_dy:
  assumes "noNaN stocks" "A \<in> set (calculateRanks stocks)" "B \<in> set (calculateRanks stocks)"
    and "rankKey DESC (dy A) < rankKey DESC (dy B)"
  shows "rankDY A < rankDY B"
proof -
  have eq: "image_mset (\<lambda>s. (dy s, rankDY s)) (mset (calculateRanks stocks)) =
        image_mset (\<lambda>s. (dy s, rankDY s)) (mset (ranked3 stocks))"
    by (simp add: frames)
  have "image_mset dy (mset (ranked2 stocks)) = image_mset dy (mset stocks)"
    by (simp add: frames)
  then have nan: "\<forall>s\<in>set (ranked2 stocks). dy s \<noteq> NaN"
    by (rule nan_transfer) (use assms(1) in \<open>simp add: noNaN_def\<close>)
  show ?thesis
    by (rule respects_transfer[OF eq[unfolded ranked3_def] nan _ _ assms(2,3,4)]) simp_all
qed

lemma respects_marginSafety:
  assumes "noNaN stocks" "A \<in> set (calculateRanks stocks)" "B \<in> set (calculateRanks stocks)"
    and "rankKey DESC (marginSafety A) < rankKey DESC (marginSafety B)"
  shows "rankMargin A < rankMargin B"
proof -
  have eq: "image_mset (\<lambda>s. (marginSafety s, rankMargin s)) (mset (calculateRanks stocks)) =
        image_mset (\<lambda>s. (marginSafety s, rankMargin s)) (mset (ranked4 stocks))"
    by (simp add: frames)
  have "image_mset marginSafety (mset (ranked3 stocks)) = image_mset marginSafety (mset stocks)"
    by (simp add: frames)
  then have nan: "\<forall>s\<in>set (ranked3 stocks). marginSafety s \<noteq> NaN"
    by (rule nan_transfer) (use assms(1) in \<open>simp add: noNaN_def\<close>)
  show ?thesis
    by (rule respects_transfer[OF eq[unfolded ranked4_def] nan _ _ assms(2,3,4)]) simp_all
qed

lemma respects_cagr:
  assumes "noNaN stocks" "A \<in> set (calculateRanks stocks)" "B \<in> set (calculateRanks stocks)"
    and "rankKey DESC (cagr A) < rankKey DESC (cagr B)"
  shows "rankCAGR A < rankCAGR B"
proof -
  have eq: "image_mset (\<lambda>s. (cagr s, rankCAGR s)) (mset (calculateRanks stocks)) =
        image_mset (\<lambda>s. (cagr s, rankCAGR s)) (mset (ranked5 stocks))"
    by (simp add: frames)
  have "image_mset cagr (mset (ranked4 stocks)) = image_mset cagr (mset stocks)"
    by (simp add: frames)
  then have nan: "\<forall>s\<in>set (ranked4 stocks). cagr s \<noteq> NaN"
    by (rule nan_transfer) (use assms(1) in \<open>simp add: noNaN_def\<close>)
  show ?thesis
    by (rule respects_transfer[OF eq[unfolded ranked5_def] nan _ _ assms(2,3,4)]) simp_all
qed

lemma respects_debtEbitda:
  assumes "noNaN stocks" "A \<in> set (calculateRanks stocks)" "B \<in> set (calculateRanks stocks)"
    and "rankKey ASC (debtEbitda A) < rankKey ASC (debtEbitda B)"
  shows "rankDebt A < rankDebt B"
proof -
  have eq: "image_mset (\<lambda>s. (debtEbitda s, rankDebt s)) (mset (calculateRanks stocks)) =
        image_mset (\<lambda>s. (debtEbitda s, rankDebt s)) (mset (ranked6 stocks))"
    by (simp add: frames)
  have "image_mset debtEbitda (mset (ranked5 stocks)) = image_mset debtEbitda (mset stocks)"
    by (simp add: frames)
  then have nan: "\<forall>s\<in>set (ranked5 stocks). debtEbitda s \<noteq> NaN"
    by (rule nan_transfer) (use assms(1) in \<open>simp add: noNaN_def\<close>)
  show ?thesis
    by (rule respects_transfer[OF eq[unfolded ranked6_def] nan _ _ assms(2,3,4)]) simp_all
qed

subsection \<open>Ties\<close>

text \<open>The ranks written by a stage increase along the array it leaves.\<close>

lemma increasing_upt: "sorted_wrt (<) [1 ..< Suc n]"
  by (rule sorted_wrt_upt)

lemma inc_ranked1: "sorted_wrt (<) (map rankPL (ranked1 stocks))"
proof -
  have "map rankPL (ranked1 stocks) = [1 ..< Suc (length (ranked1 stocks))]"
    unfolding ranked1_def by (subst applyRank_ranks) (simp_all add: length_applyRank)
  then show ?thesis by (simp only: increasing_upt)
qed

lemma inc_ranked2: "sorted_wrt (<) (map rankDeviation (ranked2 stocks))"
proof -
  have "map rankDeviation (ranked2 stocks) = [1 ..< Suc (length (ranked2 stocks))]"
    unfolding ranked2_def by (subst applyRank_ranks) (simp_all add: length_applyRank)
  then show ?thesis by (simp only: increasing_upt)
qed

lemma inc_ranked3: "sorted_wrt (<) (map rankDY (ranked3 stocks))"
proof -
  have "map rankDY (ranked3 stocks) = [1 ..< Suc (length (ranked3 stocks))]"
    unfolding ranked3_def by (subst applyRank_ranks) (simp_all add: length_applyRank)
  then show ?thesis by (simp only: increasing_upt)
qed

lemma inc_ranked4: "sorted_wrt (<) (map rankMargin (ranked4 stocks))"
proof -
  have "map rankMargin (ranked4 stocks) = [1 ..< Suc (length (ranked4 stocks))]"
    unfolding ranked4_def by (subst applyRank_ranks) (simp_all add: length_applyRank)
  then show ?thesis by (simp only: increasing_upt)
qed

lemma inc_ranked5: "sorted_wrt (<) (map rankCAGR (ranked5 stocks))"
proof -
  have "map rankCAGR (ranked5 stocks) = [1 ..< Suc (length (ranked5 stocks))]"
    unfolding ranked5_def by (subst applyRank_ranks) (simp_all add: length_applyRank)
  then show ?thesis by (simp only: increasing_upt)
qed

lemma inc_ranked6: "sorted_wrt (<) (map rankDebt (ranked6 stocks))"
proof -
  have "map rankDebt (ranked6 stocks) = [1 ..< Suc (length (ranked6 stocks))]"
    unfolding ranked6_def by (subst applyRank_ranks) (simp_all add: length_applyRank)
  then show ?thesis by (simp only: increasing_upt)
qed

lemma inc_totalled: "sorted_wrt (<) (map rankDebt (totalled stocks))"
proof -
  have "map rankDebt (totalled stocks) = map rankDebt (ranked6 stocks)"
    by (simp add: totalled_def sumRanks_def)
  then show ?thesis by (simp only: inc_ranked6)
qed

lemma ties_plDeviation:
  assumes "noNaN stocks" "A \<in> set (calculateRanks stocks)" "B \<in> set (calculateRanks stocks)"
    and "plDeviation A = plDeviation B" and "rankPL A < rankPL B"
  shows "rankDeviation A < rankDeviation B"
proof -
  have eq: "image_mset (\<lambda>s. (plDeviation s, rankPL s, rankDeviation s)) (mset (calculateRanks stocks)) =
        image_mset (\<lambda>s. (plDeviation s, rankPL s, rankDeviation s)) (mset (ranked2 stocks))"
    by (simp add: frames)
  have "image_mset plDeviation (mset (ranked1 stocks)) = image_mset plDeviation (mset stocks)"
    by (simp add: frames)
  then have nan: "\<forall>s\<in>set (ranked1 stocks). plDeviation s \<noteq> NaN"
    by (rule nan_transfer) (use assms(1) in \<open>simp add: noNaN_def\<close>)
  show ?thesis
    by (rule ties_transfer[OF eq[unfolded ranked2_def] nan _ _ _ inc_ranked1 assms(2,3,4,5)]) simp_all
qed

lemma ties_dy:
  assumes "noNaN stocks" "A \<in> set (calculateRanks stocks)" "B \<in> set (calculateRanks stocks)"
    and "dy A = dy B" and "rankDeviation A < rankDeviation B"
  shows "rankDY A < rankDY B"
proof -
  have eq: "image_mset (\<lambda>s. (dy s, rankDeviation s, rankDY s)) (mset (calculateRanks stocks)) =
        image_mset (\<lambda>s. (dy s, rankDeviation s, rankDY s)) (mset (ranked3 stocks))"
    by (simp add: frames)
  have "image_mset dy (mset (ranked2 stocks)) = image_mset dy (mset stocks)"
    by (simp add: frames)
  then have nan: "\<forall>s\<in>set (ranked2 stocks). dy s \<noteq> NaN"
    by (rule nan_transfer) (use assms(1) in \<open>simp add: noNaN_def\<close>)
  show ?thesis
    by (rule ties_transfer[OF eq[unfolded ranked3_def] nan _ _ _ inc_ranked2 assms(2,3,4,5)]) simp_all
qed

lemma ties_marginSafety:
  assumes "noNaN stocks" "A \<in> set (calculateRanks stocks)" "B \<in> set (calculateRanks stocks)"
    and "marginSafety A = marginSafety B" and "rankDY A < rankDY B"
  shows "rankMargin A < rankMargin B"
proof -
  have eq: "image_mset (\<lambda>s. (marginSafety s, rankDY s, rankMargin s)) (mset (calculateRanks stocks)) =
        image_mset (\<lambda>s. (marginSafety s, rankDY s, rankMargin s)) (mset (ranked4 stocks))"
    by (simp add: frames)
  have "image_mset marginSafety (mset (ranked3 stocks)) = image_mset marginSafety (mset stocks)"
    by (simp add: frames)
  then have nan: "\<forall>s\<in>set (ranked3 stocks). marginSafety s \<noteq> NaN"
    by (rule nan_transfer) (use assms(1) in \<open>simp add: noNaN_def\<close>)
  show ?thesis
    by (rule ties_transfer[OF eq[unfolded ranked4_def] nan _ _ _ inc_ranked3 assms(2,3,4,5)]) simp_all
qed

lemma ties_cagr:
  assumes "noNaN stocks" "A \<in> set (calculateRanks stocks)" "B \<in> set (calculateRanks stocks)"
    and "cagr A = cagr B" and "rankMargin A < rankMargin B"
  shows "rankCAGR A < rankCAGR B"
proof -
  have eq: "image_mset (\<lambda>s. (cagr s, rankMargin s, rankCAGR s)) (mset (calculateRanks stocks)) =
        image_mset (\<lambda>s. (cagr s, rankMargin s, rankCAGR s)) (mset (ranked5 stocks))"
    by (simp add: frames)
  have "image_mset cagr (mset (ranked4 stocks)) = image_mset cagr (mset stocks)"
    by (simp add: frames)
  then have nan: "\<forall>s\<in>set (ranked4 stocks). cagr s \<noteq> NaN"
    by (rule nan_transfer) (use assms(1) in \<open>simp add: noNaN_def\<close>)
  show ?thesis
    by (rule ties_transfer[OF eq[unfolded ranked5_def] nan _ _ _ inc_ranked4 assms(2,3,4,5)]) simp_all
qed

lemma ties_debtEbitda:
  assumes "noNaN stocks" "A \<in> set (calculateRanks stocks)" "B \<in> set (calculateRanks stocks)"
    and "debtEbitda A = debtEbitda B" and "rankCAGR A < rankCAGR B"
  shows "rankDebt A < rankDebt B"
proof -
  have eq: "image_mset (\<lambda>s. (debtEbitda s, rankCAGR s, rankDebt s)) (mset (calculateRanks stocks)) =
        image_mset (\<lambda>s. (debtEbitda s, rankCAGR s, rankDebt s)) (mset (ranked6 stocks))"
    by (simp add: frames)
  have "image_mset debtEbitda (mset (ranked5 stocks)) = image_mset debtEbitda (mset stocks)"
    by (simp add: frames)
  then have nan: "\<forall>s\<in>set (ranked5 stocks). debtEbitda s \<noteq> NaN"
    by (rule nan_transfer) (use assms(1) in \<open>simp add: noNaN_def\<close>)
  show ?thesis
    by (rule ties_transfer[OF eq[unfolded ranked6_def] nan _ _ _ inc_ranked5 assms(2,3,4,5)]) simp_all
qed

lemma ties_rankTotal:
  assumes "A \<in> set (calculateRanks stocks)" "B \<in> set (calculateRanks stocks)"
    and "rankTotal A = rankTotal B" and "rankDebt A < rankDebt B"
  shows "rankGeneral A < rankGeneral B"
proof -
  let ?key = "\<lambda>s. Fin (rat_of_nat (rankTotal s))"
  have eq: "image_mset (\<lambda>s. (?key s, rankDebt s, rankGeneral s)) (mset (calculateRanks stocks)) =
        image_mset (\<lambda>s. (?key s, rankDebt s, rankGeneral s)) (mset (ranked7 stocks))"
    by (simp add: frames)
  have nan: "\<forall>s\<in>set (totalled stocks). ?key s \<noteq> NaN" by simp
  have tie: "?key A = ?key B" using assms(3) by simp
  show ?thesis
    by (rule ties_transfer[OF eq[unfolded ranked7_def] nan _ _ _ inc_totalled assms(1,2) tie assms(4)])
       simp_all
qed

lemma first_metric_row_order:
  assumes "noNaN stocks"
  shows "map dataFields (filter (\<lambda>s. plProjected s = v) (sort_key rankPL (calculateRanks stocks))) =
         map dataFields (filter (\<lambda>s. plProjected s = v) stocks)"
proof -
  let ?R = "sort_key rankPL (calculateRanks stocks)"
  let ?q = "\<lambda>s. (rankPL s, dataFields s)"
  let ?upd = "\<lambda>n s. s\<lparr>rankPL := n\<rparr>"
  let ?Z = "sort_key (\<lambda>s. rankKey ASC (plProjected s)) stocks"
  let ?Y = "assignRanks ?upd 0 ?Z"
  have nan: "\<forall>s\<in>set stocks. plProjected s \<noteq> NaN" using assms by (simp add: noNaN_def)
  have Y: "ranked1 stocks = ?Y" unfolding ranked1_def using nan by (rule applyRank_sort_key)
  have "image_mset ?q (mset (calculateRanks stocks)) = image_mset ?q (mset (ranked1 stocks))"
    by (simp add: frames dataFields_def)
  then have m: "mset (map ?q ?R) = mset (map ?q ?Y)" by (simp add: Y)
  have rY: "map rankPL ?Y = [Suc 0 ..< Suc 0 + length ?Z]"
    by (rule map_assignRanks_rank) simp
  have dY: "map dataFields ?Y = map dataFields ?Z"
    by (rule map_assignRanks_frame) (simp add: dataFields_def)
  have "map ?q ?R = map ?q ?Y"
  proof (rule sorted_by_rank_unique[OF m])
    have fq: "map fst (map ?q xs) = map rankPL xs" for xs by simp
    show "sorted (map fst (map ?q ?R))" by (simp only: fq sorted_sort_key)
    have f: "map fst (map ?q ?Y) = [Suc 0 ..< Suc 0 + length ?Z]" by (simp only: fq rY)
    show "sorted (map fst (map ?q ?Y))" by (simp only: f sorted_upt)
    show "distinct (map fst (map ?q ?Y))" by (simp only: f distinct_upt)
  qed
  then have "map snd (map ?q ?R) = map snd (map ?q ?Y)" by (rule arg_cong)
  moreover have sq: "map snd (map ?q xs) = map dataFields xs" for xs by simp
  ultimately have "map dataFields ?R = map dataFields ?Y" by (simp only: sq)
  then have RZ: "map dataFields ?R = map dataFields ?Z" by (simp only: dY)
  have pull: "map dataFields (filter (\<lambda>s. plProjected s = v) xs) =
              filter (\<lambda>d. fst d = v) (map dataFields xs)" for xs
    by (rule filter_pull) (simp add: dataFields_def)
  have "map dataFields (filter (\<lambda>s. plProjected s = v) ?R) =
        map dataFields (filter (\<lambda>s. plProjected s = v) ?Z)"
    by (simp only: pull RZ)
  also have "filter (\<lambda>s. plProjected s = v) ?Z = filter (\<lambda>s. plProjected s = v) stocks"
    by (rule stable_on_value)
  finally show ?thesis .
qed

subsection \<open>The default order\<close>

lemma calculateRanks_defaultOrdered:
  assumes "\<forall>s\<in>set stocks. priceDiff s \<noteq> NaN"
  shows "defaultOrdered (calculateRanks stocks)"
proof -
  have "image_mset priceDiff (mset (writeBackAll (ranked7 stocks))) = image_mset priceDiff (mset stocks)"
    by (simp add: frames frame_writeBackAll)
  then have "\<forall>s\<in>set (writeBackAll (ranked7 stocks)). priceDiff s \<noteq> NaN"
    using assms by (rule nan_transfer)
  then show ?thesis unfolding calculateRanks_ranked7 by (rule array_sort_defaultOrdered)
qed

subsection \<open>The id of a record\<close>

lemma writeBackAll_eraseId: "writeBackAll (map eraseId xs) = map eraseId (writeBackAll xs)"
proof -
  have wb: "writeBack (eraseId s) = eraseId (writeBack s)" for s
    by (simp add: writeBack_def eraseId_def)
  have "raw (hd (map eraseId xs)) = raw (hd xs)" if "xs \<noteq> []"
    using that by (cases xs) (simp_all add: eraseId_def)
  then show ?thesis by (auto simp: writeBackAll_def wb)
qed

lemma metricRanks_eraseId: "metricRanks (map eraseId xs) = map eraseId (metricRanks xs)"
  unfolding metricRanks_def Let_def
  by (simp add: applyRank_map eraseId_def)

lemma calculateRanks_eraseId: "calculateRanks (map eraseId xs) = map eraseId (calculateRanks xs)"
proof -
  have s: "map sumRanks (map eraseId ys) = map eraseId (map sumRanks ys)" for ys
    by (simp add: sumRanks_def eraseId_def)
  have g: "applyRank (\<lambda>s. Fin (rat_of_nat (rankTotal s))) (\<lambda>n s. s\<lparr>rankGeneral := n\<rparr>) ASC (map eraseId ys) =
     map eraseId (applyRank (\<lambda>s. Fin (rat_of_nat (rankTotal s))) (\<lambda>n s. s\<lparr>rankGeneral := n\<rparr>) ASC ys)" for ys
    by (rule applyRank_map) (simp_all add: eraseId_def)
  have d: "array_sort defaultCompare (map eraseId ys) = map eraseId (array_sort defaultCompare ys)" for ys
    by (rule array_sort_map) (simp add: defaultCompare_def eraseId_def)
  show ?thesis
    unfolding calculateRanks_def Let_def
    by (simp only: metricRanks_eraseId s g writeBackAll_eraseId d)
qed

section \<open>The records built from the rows\<close>

lemma mapRows_all:
  "(\<And>k r. P (fst (f k r))) \<Longrightarrow> \<forall>s\<in>set (mapRows f k rows). P s"
proof (induction rows arbitrary: k)
  case Nil
  show ?case by simp
next
  case (Cons r rows)
  obtain s k' where f: "f k r = (s, k')" by (cases "f k r")
  have "P s" using Cons.prems[of k r] f by simp
  with Cons.IH[OF Cons.prems, of k'] f show ?case by simp
qed

lemma length_mapRows: "length (mapRows f k rows) = length rows"
  by (induction rows arbitrary: k) (auto split: prod.splits)

lemma mapRows_cong:
  assumes "\<And>k r. r \<in> set rows \<Longrightarrow> f k r = g k r"
  shows "mapRows f k rows = mapRows g k rows"
  using assms by (induction rows arbitrary: k) (auto split: prod.splits)

lemma mapRows_eraseId:
  assumes "\<And>k k' r. eraseId (fst (f k r)) = eraseId (fst (g k' r))"
  shows "map eraseId (mapRows f k rows) = map eraseId (mapRows g k' rows)"
proof (induction rows arbitrary: k k')
  case Nil
  show ?case by simp
next
  case (Cons r rows)
  obtain s j where f: "f k r = (s, j)" by (cases "f k r")
  obtain t j' where g: "g k' r = (t, j')" by (cases "g k' r")
  have "eraseId s = eraseId t" using assms[of k r k'] f g by simp
  with Cons.IH[of j j'] f g show ?case by simp
qed

lemma noNaN_netoStocks: "noNaN (netoStocks h dataRows)"
proof -
  let ?P = "\<lambda>s. plProjected s \<noteq> NaN \<and> plDeviation s \<noteq> NaN \<and> dy s \<noteq> NaN \<and>
        marginSafety s \<noteq> NaN \<and> cagr s \<noteq> NaN \<and> debtEbitda s \<noteq> NaN"
  have "\<forall>s\<in>set (mapRows (netoStock h) 0 dataRows). ?P s"
    by (rule mapRows_all) (simp add: netoStock_def Let_def parseBRNumber_not_NaN split: prod.splits)
  then show ?thesis by (auto simp: noNaN_def netoStocks_def netoPriceDiff_def)
qed

lemma noNaN_standardStocks: "noNaN (standardStocks h rows)"
proof -
  let ?P = "\<lambda>s. plProjected s \<noteq> NaN \<and> plDeviation s \<noteq> NaN \<and> dy s \<noteq> NaN \<and>
        marginSafety s \<noteq> NaN \<and> cagr s \<noteq> NaN \<and> debtEbitda s \<noteq> NaN"
  have "\<forall>s\<in>set (mapRows (standardStock h) 0 (standardRows h rows)). ?P s"
    by (rule mapRows_all) (simp add: standardStock_def Let_def parseBRNumber_not_NaN split: prod.splits)
  then show ?thesis by (simp add: noNaN_def standardStocks_def)
qed

lemma noNaN_initialStocks: "noNaN (initialStocks h rawData mode)"
  by (simp add: initialStocks_def noNaN_netoStocks noNaN_standardStocks)

lemma netoStocks_priceDiff:
  assumes "s \<in> set (netoStocks h dataRows)"
  shows "priceDiff s =
     (if js_gt0 (currentPrice s) \<and> js_gt0 (fairPrice s)
      then js_mul (js_div (js_sub (currentPrice s) (fairPrice s)) (fairPrice s)) (Fin 100)
      else Fin 0)"
proof -
  have "\<forall>t\<in>set (mapRows (netoStock h) 0 dataRows). priceDiff t = Fin 0"
    by (rule mapRows_all) (simp add: netoStock_def Let_def split: prod.splits)
  moreover from assms obtain t where "t \<in> set (mapRows (netoStock h) 0 dataRows)" "s = netoPriceDiff t"
    by (auto simp: netoStocks_def)
  ultimately show ?thesis by (auto simp: netoPriceDiff_def)
qed

lemma length_initialStocks:
  "length (initialStocks h rawData mode) = length (splitRows rawData) - 1"
  by (simp add: initialStocks_def netoStocks_def standardStocks_def standardRows_def
      length_mapRows)

lemma processStockData_Inr:
  assumes "processStockData h rawData mode = Inr res"
  shows "processed res = calculateRanks (initialStocks h rawData mode)"
    and "2 \<le> length (splitRows rawData)"
  using assms
  by (auto simp: processStockData_def Let_def initialStocks_def split: if_splits)

lemma processStockData_returns:
  "2 \<le> length (splitRows rawData) \<Longrightarrow>
   processStockData h rawData mode = Inr (projr (processStockData h rawData mode))"
  by (simp add: processStockData_def Let_def)

lemma processStockData_initialStocks:
  "processStockData h rawData mode =
     (if length (splitRows rawData) < 2 then Inl MalformedInput
      else if mode = Neto then
        Inr \<lparr>processed = calculateRanks (initialStocks h rawData mode),
             headers = NETO_INVEST_HEADERS,
             initialHiddenColumns = [],
             layoutConfig = \<lparr>stickyIndices = [0, 1], tickerIndex = 1, companyIndex = 0,
                              statusIndex = None, generalRankIndex = None\<rparr>\<rparr>
      else
        Inr \<lparr>processed = calculateRanks (initialStocks h rawData mode),
             headers = STANDARD_HEADERS,
             initialHiddenColumns = (if isSimplified (hd (splitRows rawData)) then [1, 27] else []),
             layoutConfig = \<lparr>stickyIndices = [0, 9, 10], tickerIndex = 10, companyIndex = 9,
                              statusIndex = Some 1, generalRankIndex = Some 0\<rparr>\<rparr>)"
  by (simp add: processStockData_def initialStocks_def Let_def)

text \<open>In standard mode the default order always holds.\<close>

lemma standard_defaultOrdered:
  assumes "processStockData h rawData Standard = Inr res"
  shows "defaultOrdered (processed res)"
proof -
  have "\<forall>s\<in>set (mapRows (standardStock h) 0 (standardRows h (splitRows rawData))). priceDiff s \<noteq> NaN"
    by (rule mapRows_all) (simp add: standardStock_def Let_def parseBRNumber_not_NaN split: prod.splits)
  then have "\<forall>s\<in>set (initialStocks h rawData Standard). priceDiff s \<noteq> NaN"
    by (simp add: initialStocks_def standardStocks_def)
  then have "defaultOrdered (calculateRanks (initialStocks h rawData Standard))"
    by (rule calculateRanks_defaultOrdered)
  then show ?thesis by (simp only: processStockData_Inr(1)[OF assms])
qed

text \<open>In neto mode it holds when no record has positive infinity as its fair price.\<close>

lemma mul_100_not_NaN: "x \<noteq> NaN \<Longrightarrow> js_mul x (Fin 100) \<noteq> NaN"
  by (cases x) auto

lemma neto_defaultOrdered:
  assumes "processStockData h rawData Neto = Inr res"
    and "\<forall>s\<in>set (processed res). fairPrice s \<noteq> PosInf"
  shows "defaultOrdered (processed res)"
proof -
  let ?stocks = "initialStocks h rawData Neto"
  have R: "processed res = calculateRanks ?stocks" using assms(1) by (rule processStockData_Inr)
  have "\<forall>s\<in>set ?stocks. priceDiff s \<noteq> NaN"
  proof
    fix s assume s: "s \<in> set ?stocks"
    have "image_mset fairPrice (mset (calculateRanks ?stocks)) = image_mset fairPrice (mset ?stocks)"
      by (simp add: frames)
    from image_mset_eq_memD[OF this[symmetric] s] assms(2) R
    have fp: "fairPrice s \<noteq> PosInf" by auto
    from s have "s \<in> set (netoStocks h (tl (splitRows rawData)))" by (simp add: initialStocks_def)
    from netoStocks_priceDiff[OF this] have pd: "priceDiff s =
       (if js_gt0 (currentPrice s) \<and> js_gt0 (fairPrice s)
        then js_mul (js_div (js_sub (currentPrice s) (fairPrice s)) (fairPrice s)) (Fin 100)
        else Fin 0)" .
    show "priceDiff s \<noteq> NaN"
    proof (cases "js_gt0 (currentPrice s) \<and> js_gt0 (fairPrice s)")
      case False
      with pd show ?thesis by simp
    next
      case True
      with fp obtain f where f: "fairPrice s = Fin f" "0 < f" by (cases "fairPrice s") auto
      from True have "js_div (js_sub (currentPrice s) (fairPrice s)) (fairPrice s) \<noteq> NaN"
        using f by (cases "currentPrice s") auto
      with pd True show ?thesis by (simp add: mul_100_not_NaN)
    qed
  qed
  then have "defaultOrdered (calculateRanks ?stocks)" by (rule calculateRanks_defaultOrdered)
  then show ?thesis by (simp only: R)
qed

section \<open>The random number source\<close>

lemma idOrUnknown_truthy: "truthy c \<Longrightarrow> idOrUnknown h k c = (the c, k)"
  by (cases c) (auto simp: idOrUnknown_def truthy_def)

lemma netoStock_truthy:
  assumes "truthy (cellAt (padRow (length NETO_INVEST_HEADERS) row) 1)"
  shows "netoStock h1 k row = netoStock h2 k row" and "snd (netoStock h1 k row) = k"
  using assms by (simp_all add: netoStock_def Let_def idOrUnknown_truthy)

lemma standardStock_truthy:
  assumes "truthy (cellAt (padRow (length STANDARD_HEADERS) row) 10)"
  shows "standardStock h1 k row = standardStock h2 k row" and "snd (standardStock h1 k row) = k"
  using assms by (simp_all add: standardStock_def Let_def idOrUnknown_truthy)

lemma standardRows_random: "standardRows (h\<lparr>random := r\<rparr>) rows = standardRows h rows"
proof -
  have "remapRow (h\<lparr>random := r\<rparr>) = remapRow h"
    by (rule ext) (simp add: remapRow_def Let_def)
  then show ?thesis by (simp add: standardRows_def)
qed

lemma initialStocks_random:
  assumes "\<forall>c\<in>set (tickerCells h rawData mode). truthy c"
  shows "initialStocks (h\<lparr>random := r1\<rparr>) rawData mode = initialStocks (h\<lparr>random := r2\<rparr>) rawData mode"
proof (cases "mode = Neto")
  case True
  have "mapRows (netoStock (h\<lparr>random := r1\<rparr>)) 0 (tl (splitRows rawData)) =
        mapRows (netoStock (h\<lparr>random := r2\<rparr>)) 0 (tl (splitRows rawData))"
    by (rule mapRows_cong, rule netoStock_truthy(1))
       (use assms True in \<open>simp add: tickerCells_def\<close>)
  with True show ?thesis by (simp add: initialStocks_def netoStocks_def)
next
  case False
  have "mapRows (standardStock (h\<lparr>random := r1\<rparr>)) 0 (standardRows h (splitRows rawData)) =
        mapRows (standardStock (h\<lparr>random := r2\<rparr>)) 0 (standardRows h (splitRows rawData))"
    by (rule mapRows_cong, rule standardStock_truthy(1))
       (use assms False in \<open>simp add: tickerCells_def\<close>)
  with False show ?thesis by (simp add: initialStocks_def standardStocks_def standardRows_random)
qed

lemma processStockData_random_free:
  assumes "\<forall>c\<in>set (tickerCells h rawData mode). truthy c"
  shows "processStockData (h\<lparr>random := r1\<rparr>) rawData mode =
         processStockData (h\<lparr>random := r2\<rparr>) rawData mode"
  using initialStocks_random[OF assms, of r1 r2]
  by (simp only: processStockData_initialStocks)

lemma initialStocks_eraseId:
  "map eraseId (initialStocks (h\<lparr>random := r1\<rparr>) rawData mode) =
   map eraseId (initialStocks (h\<lparr>random := r2\<rparr>) rawData mode)"
proof (cases "mode = Neto")
  case True
  have e: "eraseId (netoPriceDiff s) = netoPriceDiff (eraseId s)" for s
    by (simp add: netoPriceDiff_def eraseId_def)
  have "map eraseId (mapRows (netoStock (h\<lparr>random := r1\<rparr>)) 0 (tl (splitRows rawData))) =
        map eraseId (mapRows (netoStock (h\<lparr>random := r2\<rparr>)) 0 (tl (splitRows rawData)))"
    by (rule mapRows_eraseId)
       (simp add: netoStock_def Let_def eraseId_def split: prod.splits)
  then have "map netoPriceDiff (map eraseId (mapRows (netoStock (h\<lparr>random := r1\<rparr>)) 0 (tl (splitRows rawData)))) =
        map netoPriceDiff (map eraseId (mapRows (netoStock (h\<lparr>random := r2\<rparr>)) 0 (tl (splitRows rawData))))"
    by (rule arg_cong)
  moreover have "map eraseId (map netoPriceDiff ys) = map netoPriceDiff (map eraseId ys)" for ys
    by (simp add: e)
  ultimately have "map eraseId (netoStocks (h\<lparr>random := r1\<rparr>) (tl (splitRows rawData))) =
        map eraseId (netoStocks (h\<lparr>random := r2\<rparr>) (tl (splitRows rawData)))"
    by (simp only: netoStocks_def)
  with True show ?thesis by (simp add: initialStocks_def)
next
  case False
  have "map eraseId (mapRows (standardStock (h\<lparr>random := r1\<rparr>)) 0 (standardRows h (splitRows rawData))) =
        map eraseId (mapRows (standardStock (h\<lparr>random := r2\<rparr>)) 0 (standardRows h (splitRows rawData)))"
    by (rule mapRows_eraseId)
       (simp add: standardStock_def Let_def eraseId_def split: prod.splits)
  with False show ?thesis by (simp add: initialStocks_def standardStocks_def standardRows_random)
qed

lemma eraseIds_random:
  "eraseIds (processStockData (h\<lparr>random := r1\<rparr>) rawData mode) =
   eraseIds (processStockData (h\<lparr>random := r2\<rparr>) rawData mode)"
proof -
  have "map eraseId (calculateRanks (initialStocks (h\<lparr>random := r1\<rparr>) rawData mode)) =
        map eraseId (calculateRanks (initialStocks (h\<lparr>random := r2\<rparr>) rawData mode))"
  proof -
    have "map eraseId (initialStocks (h\<lparr>random := r1\<rparr>) rawData mode) =
          map eraseId (initialStocks (h\<lparr>random := r2\<rparr>) rawData mode)"
      by (rule initialStocks_eraseId)
    then have "calculateRanks (map eraseId (initialStocks (h\<lparr>random := r1\<rparr>) rawData mode)) =
          calculateRanks (map eraseId (initialStocks (h\<lparr>random := r2\<rparr>) rawData mode))"
      by (rule arg_cong)
    then show ?thesis by (simp only: calculateRanks_eraseId)
  qed
  then show ?thesis
    by (cases mode) (simp_all add: processStockData_initialStocks eraseIds_def)
qed

section \<open>The example inputs\<close>

lemma sample_neto_rows: "length (splitRows sample_neto) = 5"
  by code_simp

lemma sample_neto_returns:
  "processStockData example_host sample_neto Neto = Inr sample_neto_result"
  unfolding sample_neto_result_def by (rule processStockData_returns) (simp add: sample_neto_rows)

lemma sample_neto_metrics:
  "map metricsOf (processed sample_neto_result) =
     [[Fin 4, Fin (- 35), Fin 12, Fin 41, Fin 15, Fin (1 / 2)],
      [Fin (17 / 2), Fin (- 21), Fin 5, Fin 38, Fin 8, Fin (23 / 10)],
      [Fin 6, NegInf, NegInf, NegInf, NegInf, NegInf],
      [Fin 6, NegInf, NegInf, NegInf, NegInf, NegInf]]"
  unfolding sample_neto_result_def by code_simp

lemma sample_neto_ranks:
  "map ranksOf (processed sample_neto_result) =
     [[1, 1, 1, 1, 1, 1, 6, 1],
      [4, 2, 2, 2, 2, 2, 14, 2],
      [2, 3, 3, 3, 3, 3, 17, 3],
      [3, 4, 4, 4, 4, 4, 23, 4]]"
  unfolding sample_neto_result_def by code_simp

lemma sample_neto_prices:
  "map pricesOf (processed sample_neto_result) =
     [[Fin (53 / 2), Fin 45, Fin (- (370 / 9))],
      [Fin (809 / 50), Fin (2233 / 100), Fin (- (61500 / 2233))],
      [NegInf, NegInf, Fin 0],
      [NegInf, NegInf, Fin 0]]"
  unfolding sample_neto_result_def by code_simp

lemma sample_neto_length: "length (processed sample_neto_result) = 4"
  using arg_cong[OF sample_neto_metrics, of length] by simp

lemma sample_neto_nth:
  "i < 4 \<Longrightarrow> metricsOf (processed sample_neto_result ! i) = map metricsOf (processed sample_neto_result) ! i"
  "i < 4 \<Longrightarrow> ranksOf (processed sample_neto_result ! i) = map ranksOf (processed sample_neto_result) ! i"
  "i < 4 \<Longrightarrow> processed sample_neto_result ! i \<in> set (processed sample_neto_result)"
  by (simp_all add: sample_neto_length)

lemma sample_neto_tickers: "list_all truthy (tickerCells example_host sample_neto Neto)"
  by code_simp

lemma zero_price_rows: "length (splitRows zero_price_input) = 2"
  by code_simp

lemma zero_price_returns:
  "processStockData example_host zero_price_input Neto = Inr zero_price_result"
  unfolding zero_price_result_def by (rule processStockData_returns) (simp add: zero_price_rows)

lemma zero_price_prices:
  "map pricesOf (processed zero_price_result) = [[Fin 0, Fin 10, Fin 0]]"
  unfolding zero_price_result_def by code_simp

lemma infinite_fair_rows: "length (splitRows infinite_fair_input) = 3"
  by code_simp

lemma infinite_fair_returns:
  "processStockData example_host infinite_fair_input Neto = Inr infinite_fair_result"
  unfolding infinite_fair_result_def by (rule processStockData_returns) (simp add: infinite_fair_rows)

lemma infinite_fair_prices:
  "map pricesOf (processed infinite_fair_result) =
     [[Fin 10, PosInf, NaN], [Fin 10, Fin 20, Fin (- 50)]]"
  unfolding infinite_fair_result_def by code_simp

lemma long_neto_rows: "length (splitRows long_neto_input) = 2"
  by code_simp

lemma long_neto_returns:
  "processStockData example_host long_neto_input Neto = Inr long_neto_result"
  unfolding long_neto_result_def by (rule processStockData_returns) (simp add: long_neto_rows)

lemma long_neto_eval:
  "map (\<lambda>s. (length (raw s), take 3 (raw s), company s, sector s)) (processed long_neto_result) =
     [(30, [Some ''1'', Some ''ALFA3'', Some ''1''], Some ''Alfa'', Some ''Bancos'')]"
  unfolding long_neto_result_def by code_simp

lemma short_simplified_rows: "length (splitRows short_simplified_input) = 2"
  by code_simp

lemma short_simplified_returns:
  "processStockData example_host short_simplified_input Standard = Inr short_simplified_result"
  unfolding short_simplified_result_def
  by (rule processStockData_returns) (simp add: short_simplified_rows)

lemma short_simplified_eval:
  "map (\<lambda>s. (length (raw s), take 3 (drop 9 (raw s)), ticker s)) (processed short_simplified_result) =
     [(33, [Some ''Acme'', None, None], None)]"
  unfolding short_simplified_result_def by code_simp

subsection \<open>The display rows\<close>

lemma wellFormedRow_update:
  "wellFormedRow n row \<Longrightarrow> wellFormedRow n (row[i := Some v])"
  unfolding wellFormedRow_def using set_update_subset_insert[of row i "Some v"] by auto

lemma wellFormedRow_writeBack:
  "wellFormedRow n (raw s) \<Longrightarrow> wellFormedRow n (raw (writeBack s))"
  by (simp add: writeBack_def wellFormedRow_update)

lemma wellFormedRow_padRow:
  "\<forall>c\<in>set row. c \<noteq> None \<Longrightarrow> wellFormedRow n (padRow n row)"
  by (auto simp: wellFormedRow_def padRow_def)

lemma calculateRanks_raw:
  assumes "s \<in> set (calculateRanks stocks)"
  obtains t u where "t \<in> set stocks" and "raw u = raw t"
    and "raw s = raw u \<or> raw s = raw (writeBack u)"
proof -
  from assms have "s \<in> set (writeBackAll (ranked7 stocks))"
    by (simp add: calculateRanks_ranked7 set_array_sort)
  then obtain u where u: "u \<in> set (ranked7 stocks)" "s = u \<or> s = writeBack u"
    by (auto simp: writeBackAll_def split: if_splits)
  have "image_mset raw (mset (ranked7 stocks)) = image_mset raw (mset stocks)"
    by (simp add: frames)
  from image_mset_eq_memD[OF this u(1)] obtain t where t: "t \<in> set stocks" "raw t = raw u"
    by auto
  with u(2) show ?thesis using that[of t u] by auto
qed

lemma calculateRanks_wellFormed:
  assumes "\<forall>t\<in>set stocks. wellFormedRow n (raw t)" and "s \<in> set (calculateRanks stocks)"
  shows "wellFormedRow n (raw s)"
proof -
  from assms(2) obtain t u where "t \<in> set stocks" "raw u = raw t"
    "raw s = raw u \<or> raw s = raw (writeBack u)"
    by (rule calculateRanks_raw)
  with assms(1) wellFormedRow_writeBack[of n u] show ?thesis by auto
qed

lemma calculateRanks_raw_length:
  assumes "s \<in> set (calculateRanks stocks)"
  obtains t where "t \<in> set stocks" and "length (raw s) = length (raw t)"
proof -
  from assms obtain t u where "t \<in> set stocks" "raw u = raw t"
    "raw s = raw u \<or> raw s = raw (writeBack u)"
    by (rule calculateRanks_raw)
  then show ?thesis using that[of t] writeBack_length[of u] by auto
qed

lemma splitRows_strings: "\<forall>row\<in>set (splitRows rawData). \<forall>c\<in>set row. c \<noteq> None"
  by (auto simp: splitRows_def)

lemma cellAt_string: "i < length row \<Longrightarrow> \<forall>c\<in>set row. c \<noteq> None \<Longrightarrow> cellAt row i \<noteq> None"
  by (simp add: cellAt_def)

lemma remapRow_wellFormed:
  assumes "21 \<le> length row" and "\<forall>c\<in>set row. c \<noteq> None"
  shows "wellFormedRow 33 (remapRow h row)"
proof -
  have ca: "cellAt row i = Some (the (row ! i))" if "i < 21" for i
  proof -
    from that assms(1) have i: "i < length row" by simp
    then have "row ! i \<in> set row" by simp
    with assms(2) have "row ! i \<noteq> None" by blast
    with i show ?thesis by (simp add: cellAt_def)
  qed
  have base: "wellFormedRow 33 (replicate (length STANDARD_HEADERS) (Some []))"
    by (simp add: wellFormedRow_def header_lengths)
  show ?thesis
    unfolding remapRow_def Let_def
    by (simp add: ca wellFormedRow_update base)
qed

lemma mapRows_elem:
  "t \<in> set (mapRows f k rows) \<Longrightarrow> \<exists>r\<in>set rows. \<exists>j. t = fst (f j r)"
proof (induction rows arbitrary: k)
  case Nil
  then show ?case by simp
next
  case (Cons r rows)
  obtain u k' where f: "f k r = (u, k')" by (cases "f k r")
  with Cons.prems have "t = u \<or> t \<in> set (mapRows f k' rows)" by simp
  then show ?case
  proof
    assume "t = u"
    with f have "t = fst (f k r)" by simp
    then show ?thesis by auto
  next
    assume "t \<in> set (mapRows f k' rows)"
    from Cons.IH[OF this] show ?thesis by auto
  qed
qed

lemma in_set_tl: "x \<in> set (tl xs) \<Longrightarrow> x \<in> set xs"
  by (cases xs) auto

lemma processStockData_headers:
  assumes "processStockData h rawData mode = Inr res"
  shows "headers res = (if mode = Neto then NETO_INVEST_HEADERS else STANDARD_HEADERS)"
  using assms by (auto simp: processStockData_def Let_def split: if_splits)

text \<open>
  The display row of every record has at least as many
  cells as the header set, and every cell is a string, in neto mode, in standard mode
  with the full format, and in standard mode with the simplified format when every data
  row has the 21 cells of that format.
\<close>

lemma rows_well_formed:
  assumes ret: "processStockData h rawData mode = Inr res"
    and full: "mode = Standard \<and> isSimplified (hd (splitRows rawData)) \<longrightarrow>
                 (\<forall>row\<in>set (tl (splitRows rawData)). 21 \<le> length row)"
    and s: "s \<in> set (processed res)"
  shows "wellFormedRow (length (headers res)) (raw s)"
proof -
  let ?rows = "splitRows rawData"
  let ?n = "length (headers res)"
  have tl_strings: "\<forall>c\<in>set row. c \<noteq> None" if "row \<in> set (tl ?rows)" for row
    using splitRows_strings[of rawData] in_set_tl[OF that] by blast
  have R: "processed res = calculateRanks (initialStocks h rawData mode)"
    using ret by (rule processStockData_Inr)
  have "wellFormedRow ?n (raw t)" if t: "t \<in> set (initialStocks h rawData mode)" for t
  proof (cases "mode = Neto")
    case True
    then have n: "?n = 21" using processStockData_headers[OF ret] by (simp add: header_lengths)
    from t True obtain u where u: "u \<in> set (mapRows (netoStock h) 0 (tl ?rows))" "raw t = raw u"
      by (auto simp: initialStocks_def netoStocks_def netoPriceDiff_def)
    from mapRows_elem[OF u(1)] obtain row j where
      row: "row \<in> set (tl ?rows)" "u = fst (netoStock h j row)" by blast
    then have "raw u = padRow 21 row"
      by (simp add: netoStock_def Let_def header_lengths split: prod.splits)
    with u(2) n tl_strings[OF row(1)] show ?thesis by (simp add: wellFormedRow_padRow)
  next
    case False
    then have n: "?n = 33" using processStockData_headers[OF ret] by (simp add: header_lengths)
    from t False have "t \<in> set (mapRows (standardStock h) 0 (standardRows h ?rows))"
      by (simp add: initialStocks_def standardStocks_def)
    from mapRows_elem[OF this] obtain row j where
      row: "row \<in> set (standardRows h ?rows)" "t = fst (standardStock h j row)" by blast
    then have rt: "raw t = padRow 33 row"
      by (simp add: standardStock_def Let_def header_lengths split: prod.splits)
    have "\<forall>c\<in>set row. c \<noteq> None"
    proof (cases "isSimplified (hd ?rows)")
      case True
      with row(1) obtain r where r: "r \<in> set (tl ?rows)" "row = remapRow h r"
        by (auto simp: standardRows_def)
      from full False True r(1) have "21 \<le> length r" by (cases mode) auto
      from remapRow_wellFormed[OF this tl_strings[OF r(1)]] r(2) show ?thesis
        by (simp add: wellFormedRow_def)
    next
      case False
      with row(1) have "row \<in> set (tl ?rows)" by (simp add: standardRows_def)
      then show ?thesis by (rule tl_strings)
    qed
    with rt n show ?thesis by (simp add: wellFormedRow_padRow)
  qed
  then have "\<forall>t\<in>set (initialStocks h rawData mode). wellFormedRow ?n (raw t)" by blast
  then show ?thesis using s unfolding R by (rule calculateRanks_wellFormed)
qed

text \<open>The length part holds for every input: a short row is never rejected.\<close>

lemma rows_long_enough:
  assumes ret: "processStockData h rawData mode = Inr res" and s: "s \<in> set (processed res)"
  shows "length (headers res) \<le> length (raw s)"
proof -
  let ?rows = "splitRows rawData"
  let ?n = "length (headers res)"
  have R: "processed res = calculateRanks (initialStocks h rawData mode)"
    using ret by (rule processStockData_Inr)
  from s R obtain t where t: "t \<in> set (initialStocks h rawData mode)"
    and len: "length (raw s) = length (raw t)"
    using calculateRanks_raw_length by metis
  have "?n \<le> length (raw t)"
  proof (cases "mode = Neto")
    case True
    then have n: "?n = 21" using processStockData_headers[OF ret] by (simp add: header_lengths)
    from t True obtain u where u: "u \<in> set (mapRows (netoStock h) 0 (tl ?rows))" "raw t = raw u"
      by (auto simp: initialStocks_def netoStocks_def netoPriceDiff_def)
    from mapRows_elem[OF u(1)] obtain row j where "u = fst (netoStock h j row)" by blast
    then have "raw u = padRow 21 row"
      by (simp add: netoStock_def Let_def header_lengths split: prod.splits)
    with u(2) n show ?thesis by (simp add: padRow_def)
  next
    case False
    then have n: "?n = 33" using processStockData_headers[OF ret] by (simp add: header_lengths)
    from t False have "t \<in> set (mapRows (standardStock h) 0 (standardRows h ?rows))"
      by (simp add: initialStocks_def standardStocks_def)
    from mapRows_elem[OF this] obtain row j where "t = fst (standardStock h j row)" by blast
    then have "raw t = padRow 33 row"
      by (simp add: standardStock_def Let_def header_lengths split: prod.splits)
    with n show ?thesis by (simp add: padRow_def)
  qed
  with len show ?thesis by simp
qed

section \<open>The claims\<close>

text \<open>
  C1. Rank permutation with stable ties: for every call of \<open>processStockData\<close> that
  returns, in both modes, there are \<open>N \<ge> 1\<close> records, and each of \<open>rankPL\<close>,
  \<open>rankDeviation\<close>, \<open>rankDY\<close>, \<open>rankMargin\<close>, \<open>rankCAGR\<close>, \<open>rankDebt\<close> and \<open>rankGeneral\<close>, taken
  across the returned records, is a permutation of \<open>1..N\<close>. Equal values keep the order
  the array had immediately before that metric's sort. Before the first sort this is the
  order of the data rows: listed by \<open>rankPL\<close>, the records with one value of P/L projected
  come in data-row order. Before each later sort it is the order of the previous rank
  (the rank sum in between moves nothing): of two records with equal values, the one
  with the smaller previous rank gets the smaller rank.
\<close>

theorem rank_permutation_stable:
  assumes "processStockData h rawData mode = Inr res" and "N = length (processed res)"
  shows "1 \<le> N \<and>
    mset (map rankPL (processed res)) = mset [1 ..< Suc N] \<and>
    mset (map rankDeviation (processed res)) = mset [1 ..< Suc N] \<and>
    mset (map rankDY (processed res)) = mset [1 ..< Suc N] \<and>
    mset (map rankMargin (processed res)) = mset [1 ..< Suc N] \<and>
    mset (map rankCAGR (processed res)) = mset [1 ..< Suc N] \<and>
    mset (map rankDebt (processed res)) = mset [1 ..< Suc N] \<and>
    mset (map rankGeneral (processed res)) = mset [1 ..< Suc N] \<and>
    (\<forall>v. map dataFields (filter (\<lambda>s. plProjected s = v) (sort_key rankPL (processed res))) =
          map dataFields (filter (\<lambda>s. plProjected s = v) (initialStocks h rawData mode))) \<and>
    (\<forall>A\<in>set (processed res). \<forall>B\<in>set (processed res).
       plDeviation A = plDeviation B \<and> rankPL A < rankPL B \<longrightarrow> rankDeviation A < rankDeviation B) \<and>
    (\<forall>A\<in>set (processed res). \<forall>B\<in>set (processed res).
       dy A = dy B \<and> rankDeviation A < rankDeviation B \<longrightarrow> rankDY A < rankDY B) \<and>
    (\<forall>A\<in>set (processed res). \<forall>B\<in>set (processed res).
       marginSafety A = marginSafety B \<and> rankDY A < rankDY B \<longrightarrow> rankMargin A < rankMargin B) \<and>
    (\<forall>A\<in>set (processed res). \<forall>B\<in>set (processed res).
       cagr A = cagr B \<and> rankMargin A < rankMargin B \<longrightarrow> rankCAGR A < rankCAGR B) \<and>
    (\<forall>A\<in>set (processed res). \<forall>B\<in>set (processed res).
       debtEbitda A = debtEbitda B \<and> rankCAGR A < rankCAGR B \<longrightarrow> rankDebt A < rankDebt B) \<and>
    (\<forall>A\<in>set (processed res). \<forall>B\<in>set (processed res).
       rankTotal A = rankTotal B \<and> rankDebt A < rankDebt B \<longrightarrow> rankGeneral A < rankGeneral B)"
proof -
  define stocks where "stocks = initialStocks h rawData mode"
  have R: "processed res = calculateRanks stocks" and nn: "noNaN stocks"
    using processStockData_Inr(1)[OF assms(1)] by (simp_all add: stocks_def noNaN_initialStocks)
  have len: "length stocks = N"
    using assms(2) by (simp add: R length_calculateRanks)
  have "length stocks = length (splitRows rawData) - 1"
    by (simp add: stocks_def length_initialStocks)
  with processStockData_Inr(2)[OF assms(1)] len have N: "1 \<le> N" by simp
  have p1: "mset (map rankPL (processed res)) = mset [1 ..< Suc N]"
    by (simp only: R perm_rankPL len)
  have p2: "mset (map rankDeviation (processed res)) = mset [1 ..< Suc N]"
    by (simp only: R perm_rankDeviation len)
  have p3: "mset (map rankDY (processed res)) = mset [1 ..< Suc N]"
    by (simp only: R perm_rankDY len)
  have p4: "mset (map rankMargin (processed res)) = mset [1 ..< Suc N]"
    by (simp only: R perm_rankMargin len)
  have p5: "mset (map rankCAGR (processed res)) = mset [1 ..< Suc N]"
    by (simp only: R perm_rankCAGR len)
  have p6: "mset (map rankDebt (processed res)) = mset [1 ..< Suc N]"
    by (simp only: R perm_rankDebt len)
  have p7: "mset (map rankGeneral (processed res)) = mset [1 ..< Suc N]"
    by (simp only: R perm_rankGeneral len)
  have t1: "\<forall>v. map dataFields (filter (\<lambda>s. plProjected s = v) (sort_key rankPL (processed res))) =
          map dataFields (filter (\<lambda>s. plProjected s = v) (initialStocks h rawData mode))"
    using first_metric_row_order[OF nn] by (simp only: R stocks_def) simp
  have t2: "\<forall>A\<in>set (processed res). \<forall>B\<in>set (processed res).
       plDeviation A = plDeviation B \<and> rankPL A < rankPL B \<longrightarrow> rankDeviation A < rankDeviation B"
    unfolding R using ties_plDeviation[OF nn] by blast
  have t3: "\<forall>A\<in>set (processed res). \<forall>B\<in>set (processed res).
       dy A = dy B \<and> rankDeviation A < rankDeviation B \<longrightarrow> rankDY A < rankDY B"
    unfolding R using ties_dy[OF nn] by blast
  have t4: "\<forall>A\<in>set (processed res). \<forall>B\<in>set (processed res).
       marginSafety A = marginSafety B \<and> rankDY A < rankDY B \<longrightarrow> rankMargin A < rankMargin B"
    unfolding R using ties_marginSafety[OF nn] by blast
  have t5: "\<forall>A\<in>set (processed res). \<forall>B\<in>set (processed res).
       cagr A = cagr B \<and> rankMargin A < rankMargin B \<longrightarrow> rankCAGR A < rankCAGR B"
    unfolding R using ties_cagr[OF nn] by blast
  have t6: "\<forall>A\<in>set (processed res). \<forall>B\<in>set (processed res).
       debtEbitda A = debtEbitda B \<and> rankCAGR A < rankCAGR B \<longrightarrow> rankDebt A < rankDebt B"
    unfolding R using ties_debtEbitda[OF nn] by blast
  have t7: "\<forall>A\<in>set (processed res). \<forall>B\<in>set (processed res).
       rankTotal A = rankTotal B \<and> rankDebt A < rankDebt B \<longrightarrow> rankGeneral A < rankGeneral B"
    unfolding R using ties_rankTotal by blast
  from N p1 p2 p3 p4 p5 p6 p7 t1 t2 t3 t4 t5 t6 t7 show ?thesis by (intro conjI)
qed

theorem rank_permutation_stable_witness:
  "processStockData example_host sample_neto Neto = Inr sample_neto_result \<and>
   4 = length (processed sample_neto_result) \<and>
   mset (map rankPL (processed sample_neto_result)) = mset [1 ..< Suc 4] \<and>
   mset (map rankGeneral (processed sample_neto_result)) = mset [1 ..< Suc 4] \<and>
   processed sample_neto_result ! 2 \<in> set (processed sample_neto_result) \<and>
   processed sample_neto_result ! 3 \<in> set (processed sample_neto_result) \<and>
   plDeviation (processed sample_neto_result ! 2) = plDeviation (processed sample_neto_result ! 3) \<and>
   rankPL (processed sample_neto_result ! 2) < rankPL (processed sample_neto_result ! 3) \<and>
   rankDeviation (processed sample_neto_result ! 2) < rankDeviation (processed sample_neto_result ! 3)"
proof -
  let ?A = "processed sample_neto_result ! 2" and ?B = "processed sample_neto_result ! 3"
  have len: "4 = length (processed sample_neto_result)" by (simp add: sample_neto_length)
  note T = rank_permutation_stable[OF sample_neto_returns len]
  have A: "?A \<in> set (processed sample_neto_result)" and B: "?B \<in> set (processed sample_neto_result)"
    by (simp_all add: sample_neto_nth)
  have "metricsOf ?A = [Fin 6, NegInf, NegInf, NegInf, NegInf, NegInf]"
    "metricsOf ?B = [Fin 6, NegInf, NegInf, NegInf, NegInf, NegInf]"
    by (simp_all add: sample_neto_nth sample_neto_metrics)
  then have tie: "plDeviation ?A = plDeviation ?B" by (simp add: metricsOf_def)
  have "ranksOf ?A = [2, 3, 3, 3, 3, 3, 17, 3]" "ranksOf ?B = [3, 4, 4, 4, 4, 4, 23, 4]"
    by (simp_all add: sample_neto_nth sample_neto_ranks)
  then have prev: "rankPL ?A < rankPL ?B" by (simp add: ranksOf_def)
  have p1: "mset (map rankPL (processed sample_neto_result)) = mset [1 ..< Suc 4]"
    using T by (elim conjE)
  have p7: "mset (map rankGeneral (processed sample_neto_result)) = mset [1 ..< Suc 4]"
    using T by (elim conjE)
  have t2: "\<forall>A\<in>set (processed sample_neto_result). \<forall>B\<in>set (processed sample_neto_result).
       plDeviation A = plDeviation B \<and> rankPL A < rankPL B \<longrightarrow> rankDeviation A < rankDeviation B"
    using T by (elim conjE)
  from t2 A B tie prev have "rankDeviation ?A < rankDeviation ?B" by blast
  with sample_neto_returns len p1 p7 A B tie prev show ?thesis by (intro conjI)
qed

text \<open>
  C2. Direction correctness: of two records of a ranked result whose values for a metric
  are finite and distinct, the one with the strictly better value (smaller for P/L
  projected, P/L deviation and debt/EBITDA; larger for dividend yield, margin of safety
  and CAGR) has the numerically smaller rank for that metric.
\<close>

theorem direction_correctness:
  assumes "processStockData h rawData mode = Inr res"
    and "A \<in> set (processed res)" and "B \<in> set (processed res)"
  shows "(\<forall>a b. plProjected A = Fin a \<and> plProjected B = Fin b \<and> a < b \<longrightarrow> rankPL A < rankPL B) \<and>
         (\<forall>a b. plDeviation A = Fin a \<and> plDeviation B = Fin b \<and> a < b \<longrightarrow> rankDeviation A < rankDeviation B) \<and>
         (\<forall>a b. dy A = Fin a \<and> dy B = Fin b \<and> b < a \<longrightarrow> rankDY A < rankDY B) \<and>
         (\<forall>a b. marginSafety A = Fin a \<and> marginSafety B = Fin b \<and> b < a \<longrightarrow> rankMargin A < rankMargin B) \<and>
         (\<forall>a b. cagr A = Fin a \<and> cagr B = Fin b \<and> b < a \<longrightarrow> rankCAGR A < rankCAGR B) \<and>
         (\<forall>a b. debtEbitda A = Fin a \<and> debtEbitda B = Fin b \<and> a < b \<longrightarrow> rankDebt A < rankDebt B)"
proof -
  define stocks where "stocks = initialStocks h rawData mode"
  have s: "processed res = calculateRanks stocks" "noNaN stocks"
    using processStockData_Inr(1)[OF assms(1)] by (simp_all add: stocks_def noNaN_initialStocks)
  note AB = assms(2,3)[unfolded s(1)]
  have 1: "rankPL A < rankPL B" if "plProjected A = Fin a" "plProjected B = Fin b" "a < b" for a b
    using s(2) AB by (rule respects_plProjected) (simp add: that rankKey_def)
  have 2: "rankDeviation A < rankDeviation B" if "plDeviation A = Fin a" "plDeviation B = Fin b" "a < b" for a b
    using s(2) AB by (rule respects_plDeviation) (simp add: that rankKey_def)
  have 3: "rankDY A < rankDY B" if "dy A = Fin a" "dy B = Fin b" "b < a" for a b
    using s(2) AB by (rule respects_dy) (simp add: that rankKey_def)
  have 4: "rankMargin A < rankMargin B" if "marginSafety A = Fin a" "marginSafety B = Fin b" "b < a" for a b
    using s(2) AB by (rule respects_marginSafety) (simp add: that rankKey_def)
  have 5: "rankCAGR A < rankCAGR B" if "cagr A = Fin a" "cagr B = Fin b" "b < a" for a b
    using s(2) AB by (rule respects_cagr) (simp add: that rankKey_def)
  have 6: "rankDebt A < rankDebt B" if "debtEbitda A = Fin a" "debtEbitda B = Fin b" "a < b" for a b
    using s(2) AB by (rule respects_debtEbitda) (simp add: that rankKey_def)
  from 1 2 3 4 5 6 show ?thesis by blast
qed

theorem direction_correctness_witness:
  "processStockData example_host sample_neto Neto = Inr sample_neto_result \<and>
   processed sample_neto_result ! 0 \<in> set (processed sample_neto_result) \<and>
   processed sample_neto_result ! 1 \<in> set (processed sample_neto_result) \<and>
   plProjected (processed sample_neto_result ! 0) = Fin 4 \<and>
   plProjected (processed sample_neto_result ! 1) = Fin (17 / 2) \<and>
   dy (processed sample_neto_result ! 0) = Fin 12 \<and>
   dy (processed sample_neto_result ! 1) = Fin 5 \<and>
   rankPL (processed sample_neto_result ! 0) < rankPL (processed sample_neto_result ! 1) \<and>
   rankDY (processed sample_neto_result ! 0) < rankDY (processed sample_neto_result ! 1)"
proof -
  let ?A = "processed sample_neto_result ! 0" and ?B = "processed sample_neto_result ! 1"
  have A: "?A \<in> set (processed sample_neto_result)" and B: "?B \<in> set (processed sample_neto_result)"
    by (simp_all add: sample_neto_length)
  have "map metricsOf (processed sample_neto_result) ! 0 = metricsOf ?A"
       "map metricsOf (processed sample_neto_result) ! 1 = metricsOf ?B"
    by (simp_all add: sample_neto_length)
  then have m: "metricsOf ?A = [Fin 4, Fin (- 35), Fin 12, Fin 41, Fin 15, Fin (1 / 2)]"
    "metricsOf ?B = [Fin (17 / 2), Fin (- 21), Fin 5, Fin 38, Fin 8, Fin (23 / 10)]"
    by (simp_all add: sample_neto_metrics)
  then have v: "plProjected ?A = Fin 4" "plProjected ?B = Fin (17 / 2)" "dy ?A = Fin 12" "dy ?B = Fin 5"
    by (simp_all add: metricsOf_def)
  note T = direction_correctness[OF sample_neto_returns A B]
  have "rankPL ?A < rankPL ?B"
    by (rule T[THEN conjunct1, rule_format, of 4 "17 / 2"]) (use v in simp)
  moreover have "rankDY ?A < rankDY ?B"
    by (rule T[THEN conjunct2, THEN conjunct2, THEN conjunct1, rule_format, of 12 5]) (use v in simp)
  ultimately show ?thesis using sample_neto_returns A B v by blast
qed

text \<open>
  C3. Missing-value worst case: for each of the six metrics, a record whose value is an
  infinity (the missing sentinel of either sign) has a numerically larger rank for that
  metric than every record with a finite value, whatever the direction of the metric.
\<close>

theorem missing_value_worst:
  assumes "processStockData h rawData mode = Inr res"
    and "A \<in> set (processed res)" and "B \<in> set (processed res)"
  shows "(\<forall>b. (plProjected A = NegInf \<or> plProjected A = PosInf) \<and> plProjected B = Fin b \<longrightarrow> rankPL B < rankPL A) \<and>
         (\<forall>b. (plDeviation A = NegInf \<or> plDeviation A = PosInf) \<and> plDeviation B = Fin b \<longrightarrow> rankDeviation B < rankDeviation A) \<and>
         (\<forall>b. (dy A = NegInf \<or> dy A = PosInf) \<and> dy B = Fin b \<longrightarrow> rankDY B < rankDY A) \<and>
         (\<forall>b. (marginSafety A = NegInf \<or> marginSafety A = PosInf) \<and> marginSafety B = Fin b \<longrightarrow> rankMargin B < rankMargin A) \<and>
         (\<forall>b. (cagr A = NegInf \<or> cagr A = PosInf) \<and> cagr B = Fin b \<longrightarrow> rankCAGR B < rankCAGR A) \<and>
         (\<forall>b. (debtEbitda A = NegInf \<or> debtEbitda A = PosInf) \<and> debtEbitda B = Fin b \<longrightarrow> rankDebt B < rankDebt A)"
proof -
  define stocks where "stocks = initialStocks h rawData mode"
  have s: "processed res = calculateRanks stocks" "noNaN stocks"
    using processStockData_Inr(1)[OF assms(1)] by (simp_all add: stocks_def noNaN_initialStocks)
  note BA = assms(3,2)[unfolded s(1)]
  have 1: "rankPL B < rankPL A"
    if "plProjected A = NegInf \<or> plProjected A = PosInf" "plProjected B = Fin b" for b
    using s(2) BA by (rule respects_plProjected) (use that in \<open>auto simp: rankKey_def\<close>)
  have 2: "rankDeviation B < rankDeviation A"
    if "plDeviation A = NegInf \<or> plDeviation A = PosInf" "plDeviation B = Fin b" for b
    using s(2) BA by (rule respects_plDeviation) (use that in \<open>auto simp: rankKey_def\<close>)
  have 3: "rankDY B < rankDY A"
    if "dy A = NegInf \<or> dy A = PosInf" "dy B = Fin b" for b
    using s(2) BA by (rule respects_dy) (use that in \<open>auto simp: rankKey_def\<close>)
  have 4: "rankMargin B < rankMargin A"
    if "marginSafety A = NegInf \<or> marginSafety A = PosInf" "marginSafety B = Fin b" for b
    using s(2) BA by (rule respects_marginSafety) (use that in \<open>auto simp: rankKey_def\<close>)
  have 5: "rankCAGR B < rankCAGR A"
    if "cagr A = NegInf \<or> cagr A = PosInf" "cagr B = Fin b" for b
    using s(2) BA by (rule respects_cagr) (use that in \<open>auto simp: rankKey_def\<close>)
  have 6: "rankDebt B < rankDebt A"
    if "debtEbitda A = NegInf \<or> debtEbitda A = PosInf" "debtEbitda B = Fin b" for b
    using s(2) BA by (rule respects_debtEbitda) (use that in \<open>auto simp: rankKey_def\<close>)
  from 1 2 3 4 5 6 show ?thesis by blast
qed

theorem missing_value_worst_witness:
  "processStockData example_host sample_neto Neto = Inr sample_neto_result \<and>
   processed sample_neto_result ! 2 \<in> set (processed sample_neto_result) \<and>
   processed sample_neto_result ! 0 \<in> set (processed sample_neto_result) \<and>
   plDeviation (processed sample_neto_result ! 2) = NegInf \<and>
   plDeviation (processed sample_neto_result ! 0) = Fin (- 35) \<and>
   rankDeviation (processed sample_neto_result ! 0) < rankDeviation (processed sample_neto_result ! 2)"
proof -
  let ?A = "processed sample_neto_result ! 2" and ?B = "processed sample_neto_result ! 0"
  have A: "?A \<in> set (processed sample_neto_result)" and B: "?B \<in> set (processed sample_neto_result)"
    by (simp_all add: sample_neto_nth)
  have "metricsOf ?A = [Fin 6, NegInf, NegInf, NegInf, NegInf, NegInf]"
    "metricsOf ?B = [Fin 4, Fin (- 35), Fin 12, Fin 41, Fin 15, Fin (1 / 2)]"
    by (simp_all add: sample_neto_nth sample_neto_metrics)
  then have v: "plDeviation ?A = NegInf" "plDeviation ?B = Fin (- 35)"
    by (simp_all add: metricsOf_def)
  note T = missing_value_worst[OF sample_neto_returns A B]
  have "rankDeviation ?B < rankDeviation ?A"
    by (rule T[THEN conjunct2, THEN conjunct1, rule_format, of "- 35"]) (use v in simp)
  then show ?thesis using sample_neto_returns A B v by blast
qed




text \<open>
  C5, as amended. \<open>processStockData\<close> raises \<open>MalformedInput\<close> exactly when the input text,
  after leading and trailing white space is trimmed, has fewer than 2 lines, in both
  modes; when the trimmed text has 2 or more lines it returns normally.
\<close>

theorem malformed_input:
  "(processStockData h rawData mode = Inl MalformedInput) =
     (length (str_split CHR 0x0A (trim rawData)) < 2) \<and>
   (\<exists>res. processStockData h rawData mode = Inr res) =
     (2 \<le> length (str_split CHR 0x0A (trim rawData)))"
  by (auto simp: processStockData_def splitRows_def Let_def)

theorem malformed_input_witness:
  "length (str_split CHR 0x0A (trim sample_neto)) = 5 \<and>
   processStockData example_host sample_neto Neto \<noteq> Inl MalformedInput \<and>
   processStockData example_host sample_neto Standard \<noteq> Inl MalformedInput"
proof -
  have "length (str_split CHR 0x0A (trim sample_neto)) = 5"
    using sample_neto_rows by (simp add: splitRows_def)
  then show ?thesis
    using malformed_input[of example_host sample_neto Neto]
      malformed_input[of example_host sample_neto Standard]
    by simp
qed

text \<open>
  The claim as stated counts the lines of the input text itself. A header line followed
  by a line of two empty cells has 2 lines; trimming removes the second line, and the
  call raises in both modes.
\<close>

theorem malformed_input_counterexample:
  "length (str_split CHR 0x0A blank_row_input) = 2 \<and>
   processStockData example_host blank_row_input Standard = Inl MalformedInput \<and>
   processStockData example_host blank_row_input Neto = Inl MalformedInput"
proof -
  have 1: "length (str_split CHR 0x0A blank_row_input) = 2" by code_simp
  have 2: "length (str_split CHR 0x0A (trim blank_row_input)) = 1" by code_simp
  have "processStockData h blank_row_input mode = Inl MalformedInput" for h mode
    using 2 by (simp add: processStockData_def splitRows_def Let_def)
  with 1 show ?thesis by simp
qed

text \<open>
  C6 at an input the code does not handle. In neto mode a fair-price cell with the text
  \<open>Infinity\<close> parses to positive infinity, passes the guard \<open>fairPrice > 0\<close>, and makes
  \<open>priceDiff\<close> of that record \<open>NaN\<close>. The default sort compares nothing with \<open>NaN\<close>, and the
  returned array is not ordered by \<open>priceDiff\<close> (no arrangement of it would be).
\<close>

theorem default_order_broken_by_NaN:
  "processStockData example_host infinite_fair_input Neto = Inr infinite_fair_result \<and>
   map priceDiff (processed infinite_fair_result) = [NaN, Fin (- 50)] \<and>
   \<not> defaultOrdered (processed infinite_fair_result) \<and>
   \<not> defaultOrdered (rev (processed infinite_fair_result))"
proof -
  obtain a b where ab: "processed infinite_fair_result = [a, b]"
    "pricesOf a = [Fin 10, PosInf, NaN]" "pricesOf b = [Fin 10, Fin 20, Fin (- 50)]"
    using infinite_fair_prices by auto
  then have "priceDiff a = NaN" "priceDiff b = Fin (- 50)" by (simp_all add: pricesOf_def)
  with ab(1) infinite_fair_returns show ?thesis
    by (simp add: defaultOrdered_def displayKey_def)
qed

text \<open>
  C7, as amended. In neto mode, for every produced record, \<open>priceDiff\<close> equals
  \<open>(currentPrice - fairPrice) / fairPrice * 100\<close> whenever \<open>currentPrice\<close> and \<open>fairPrice\<close>
  are both finite and strictly positive, and it is left at zero whenever one of them is
  not greater than zero (which includes the missing sentinel, negative infinity).
\<close>

theorem neto_price_difference:
  assumes "processStockData h rawData Neto = Inr res" and "s \<in> set (processed res)"
  shows "(\<forall>c f. currentPrice s = Fin c \<and> fairPrice s = Fin f \<and> 0 < c \<and> 0 < f \<longrightarrow>
            priceDiff s = Fin ((c - f) / f * 100)) \<and>
         (\<not> js_gt0 (currentPrice s) \<or> \<not> js_gt0 (fairPrice s) \<longrightarrow> priceDiff s = Fin 0)"
proof -
  let ?p = "\<lambda>s. (priceDiff s, currentPrice s, fairPrice s)"
  let ?stocks = "initialStocks h rawData Neto"
  have R: "processed res = calculateRanks ?stocks" using assms(1) by (rule processStockData_Inr)
  have "image_mset ?p (mset (calculateRanks ?stocks)) = image_mset ?p (mset ?stocks)"
    by (simp add: frames)
  from image_mset_eq_memD[OF this] assms(2) R obtain t where
    t: "t \<in> set ?stocks" "priceDiff t = priceDiff s" "currentPrice t = currentPrice s"
       "fairPrice t = fairPrice s"
    by auto
  from t(1) have "t \<in> set (netoStocks h (tl (splitRows rawData)))" by (simp add: initialStocks_def)
  from netoStocks_priceDiff[OF this] t(2,3,4)
  have "priceDiff s =
     (if js_gt0 (currentPrice s) \<and> js_gt0 (fairPrice s)
      then js_mul (js_div (js_sub (currentPrice s) (fairPrice s)) (fairPrice s)) (Fin 100)
      else Fin 0)" by simp
  then show ?thesis by auto
qed

theorem neto_price_difference_witness:
  "processStockData example_host sample_neto Neto = Inr sample_neto_result \<and>
   processed sample_neto_result ! 0 \<in> set (processed sample_neto_result) \<and>
   processed sample_neto_result ! 2 \<in> set (processed sample_neto_result) \<and>
   currentPrice (processed sample_neto_result ! 0) = Fin (53 / 2) \<and>
   fairPrice (processed sample_neto_result ! 0) = Fin 45 \<and>
   priceDiff (processed sample_neto_result ! 0) = Fin ((53 / 2 - 45) / 45 * 100) \<and>
   \<not> js_gt0 (currentPrice (processed sample_neto_result ! 2)) \<and>
   priceDiff (processed sample_neto_result ! 2) = Fin 0"
proof -
  let ?A = "processed sample_neto_result ! 0" and ?B = "processed sample_neto_result ! 2"
  have A: "?A \<in> set (processed sample_neto_result)" and B: "?B \<in> set (processed sample_neto_result)"
    by (simp_all add: sample_neto_nth)
  have "pricesOf ?A = map pricesOf (processed sample_neto_result) ! 0"
    "pricesOf ?B = map pricesOf (processed sample_neto_result) ! 2"
    by (simp_all add: sample_neto_length)
  then have "pricesOf ?A = [Fin (53 / 2), Fin 45, Fin (- (370 / 9))]"
    "pricesOf ?B = [NegInf, NegInf, Fin 0]"
    by (simp_all add: sample_neto_prices)
  then have v: "currentPrice ?A = Fin (53 / 2)" "fairPrice ?A = Fin 45" "currentPrice ?B = NegInf"
    by (simp_all add: pricesOf_def)
  note TA = neto_price_difference[OF sample_neto_returns A]
  note TB = neto_price_difference[OF sample_neto_returns B]
  have a: "priceDiff ?A = Fin ((53 / 2 - 45) / 45 * 100)"
    by (rule TA[THEN conjunct1, rule_format]) (use v in simp)
  have nb: "\<not> js_gt0 (currentPrice ?B)" using v by simp
  have b: "priceDiff ?B = Fin 0"
    by (rule TB[THEN conjunct2, rule_format]) (use nb in simp)
  from sample_neto_returns A B v(1,2) a nb b show ?thesis by (intro conjI)
qed

text \<open>
  The claim as stated asks only that the current price is present. A record with current
  price \<open>0\<close> and fair price \<open>10\<close> has both prices present and a positive fair price, and
  its \<open>priceDiff\<close> stays \<open>0\<close> instead of \<open>-100\<close>.
\<close>

theorem neto_price_difference_counterexample:
  "processStockData example_host zero_price_input Neto = Inr zero_price_result \<and>
   hd (processed zero_price_result) \<in> set (processed zero_price_result) \<and>
   currentPrice (hd (processed zero_price_result)) \<noteq> NegInf \<and>
   fairPrice (hd (processed zero_price_result)) \<noteq> NegInf \<and>
   js_gt0 (fairPrice (hd (processed zero_price_result))) \<and>
   priceDiff (hd (processed zero_price_result)) \<noteq>
     js_mul (js_div (js_sub (currentPrice (hd (processed zero_price_result)))
                            (fairPrice (hd (processed zero_price_result))))
                    (fairPrice (hd (processed zero_price_result)))) (Fin 100)"
proof -
  obtain s where s: "processed zero_price_result = [s]" "pricesOf s = [Fin 0, Fin 10, Fin 0]"
    using zero_price_prices by auto
  then have "currentPrice s = Fin 0" "fairPrice s = Fin 10" "priceDiff s = Fin 0"
    by (simp_all add: pricesOf_def)
  with s(1) zero_price_returns show ?thesis by simp
qed

text \<open>
  C8 at an input the code does not handle. In neto mode a data row of 30 cells or more
  passes both length tests of the write-back, and the first and third cell of its display
  row (company and sector in the neto layout) are overwritten with rank strings.
\<close>

theorem neto_row_overwritten:
  "processStockData example_host long_neto_input Neto = Inr long_neto_result \<and>
   company (hd (processed long_neto_result)) = Some ''Alfa'' \<and>
   sector (hd (processed long_neto_result)) = Some ''Bancos'' \<and>
   length (raw (hd (processed long_neto_result))) = 30 \<and>
   take 3 (raw (hd (processed long_neto_result))) = [Some ''1'', Some ''ALFA3'', Some ''1'']"
proof -
  obtain s where "processed long_neto_result = [s]"
    "(length (raw s), take 3 (raw s), company s, sector s) =
     (30, [Some ''1'', Some ''ALFA3'', Some ''1''], Some ''Alfa'', Some ''Bancos'')"
    using long_neto_eval by auto
  with long_neto_returns show ?thesis by simp
qed

text \<open>
  C9 at an input the code does not handle. In standard mode with the simplified format, a
  data row with fewer cells than the remap reads is not rejected and its display row has
  the 33 cells of the header set, but the slots copied from missing cells hold
  \<open>undefined\<close>, not the empty string: after a row with the single cell \<open>Acme\<close>, positions
  10 and 11 of \<open>raw\<close> are \<open>undefined\<close>.
\<close>

theorem short_simplified_row_undefined:
  "processStockData example_host short_simplified_input Standard = Inr short_simplified_result \<and>
   length (raw (hd (processed short_simplified_result))) = length STANDARD_HEADERS \<and>
   take 3 (drop 9 (raw (hd (processed short_simplified_result)))) = [Some ''Acme'', None, None] \<and>
   ticker (hd (processed short_simplified_result)) = None"
proof -
  obtain s where "processed short_simplified_result = [s]"
    "(length (raw s), take 3 (drop 9 (raw s)), ticker s) = (33, [Some ''Acme'', None, None], None)"
    using short_simplified_eval by auto
  moreover have "length STANDARD_HEADERS = 33" by (simp add: STANDARD_HEADERS_def)
  ultimately show ?thesis using short_simplified_returns by simp
qed

text \<open>
  C10. With the random number source as an explicit input of the model: for every input
  text and mode in which every data row has a non-empty ticker cell, the result bundle
  (records, headers, hidden-column indices, layout configuration) is the same for any two
  random number sources, so two runs on the same arguments return identical bundles.
  For every input, two runs differ at most in the \<open>id\<close> of the records: the source is
  consulted only by the \<open>id\<close> fallback of a record whose ticker cell is empty or absent.
\<close>

theorem deterministic_with_tickers:
  "((\<forall>c\<in>set (tickerCells h rawData mode). truthy c) \<longrightarrow>
      processStockData (h\<lparr>random := r1\<rparr>) rawData mode =
      processStockData (h\<lparr>random := r2\<rparr>) rawData mode) \<and>
   eraseIds (processStockData (h\<lparr>random := r1\<rparr>) rawData mode) =
   eraseIds (processStockData (h\<lparr>random := r2\<rparr>) rawData mode)"
  using processStockData_random_free[of h rawData mode r1 r2] eraseIds_random
  by blast

theorem deterministic_with_tickers_witness:
  "list_all truthy (tickerCells example_host sample_neto Neto) \<and>
   processStockData (example_host\<lparr>random := (\<lambda>k. ''0.25'')\<rparr>) sample_neto Neto =
   processStockData (example_host\<lparr>random := (\<lambda>k. ''0.75'')\<rparr>) sample_neto Neto"
proof -
  have "\<forall>c\<in>set (tickerCells example_host sample_neto Neto). truthy c"
    using sample_neto_tickers by (simp add: list_all_iff)
  with deterministic_with_tickers[where h = example_host and rawData = sample_neto and mode = Neto
      and ?r1.0 = "\<lambda>k. ''0.25''" and ?r2.0 = "\<lambda>k. ''0.75''"]
    sample_neto_tickers
  show ?thesis by blast
qed

end
